theory Spec2Isabelle
  imports Complex_Main "HOL-Library.Word"
begin

text \<open>
  A shallow embedding of \<open>termlib.py\<close>: the class \<open>TerminalContext\<close> with its constructor,
  \<open>close\<close>, \<open>cbreak_mode\<close>, \<open>query\<close>, \<open>get_size\<close>, \<open>write\<close> and \<open>query_color\<close>, over a model
  of the terminal device and of the Python library functions they call. The handle and
  the device are passed in and returned; an exception is a value; every OS call is
  recorded in a trace.
\<close>

section \<open>Python values used by termlib.py\<close>

text \<open>
  A Python \<open>bytes\<close> object is a list of 8-bit characters, a Python \<open>str\<close> a list of
  code points. Library functions that can raise return a sum whose left summand is the
  exception.
\<close>

type_synonym bytes = "char list"
type_synonym str = "nat list"

datatype exn = TypeError | ValueError | UnicodeEncodeError

definition ascii :: "string \<Rightarrow> str" where
  "ascii s = map of_char s"

definition ESC :: char where
  "ESC = CHR 0x1B"

definition BEL :: char where
  "BEL = CHR 0x07"

definition BSL :: char where
  "BSL = CHR 0x5C"

subsection \<open>bytes methods\<close>

definition startswith :: "'c list \<Rightarrow> 'c list \<Rightarrow> bool" where
  "startswith s p \<longleftrightarrow> take (length p) s = p"

definition endswith :: "'c list \<Rightarrow> 'c list \<Rightarrow> bool" where
  "endswith s p \<longleftrightarrow> length p \<le> length s \<and> drop (length s - length p) s = p"

text \<open>\<open>s.split(sep)\<close> for a one-byte separator: never an empty list.\<close>

fun bytes_split :: "char \<Rightarrow> bytes \<Rightarrow> bytes list" where
  "bytes_split sep [] = [[]]"
| "bytes_split sep (c # cs) =
     (if c = sep then [] # bytes_split sep cs
      else (case bytes_split sep cs of
              [] \<Rightarrow> [[c]]
            | p # ps \<Rightarrow> (c # p) # ps))"

text \<open>\<open>s.rstrip(chars)\<close>: drops every trailing byte that occurs in \<open>chars\<close>.\<close>

definition rstrip :: "bytes \<Rightarrow> bytes \<Rightarrow> bytes" where
  "rstrip chars s = rev (dropWhile (\<lambda>c. c \<in> set chars) (rev s))"

text \<open>A list comprehension \<open>[f(v) for v in xs]\<close>: the first exception ends it.\<close>

fun list_comp :: "('b \<Rightarrow> exn + 'c) \<Rightarrow> 'b list \<Rightarrow> exn + 'c list" where
  "list_comp f [] = Inr []"
| "list_comp f (x # xs) =
     (case f x of
        Inl e \<Rightarrow> Inl e
      | Inr y \<Rightarrow> (case list_comp f xs of Inl e \<Rightarrow> Inl e | Inr ys \<Rightarrow> Inr (y # ys)))"

subsection \<open>\<open>int(v)\<close> and \<open>int(v, 16)\<close> on bytes\<close>

text \<open>
  CPython's \<open>PyLong_FromString\<close>: leading whitespace, an optional sign, for base 16 an
  optional \<open>0x\<close> (after which one underscore may stand), digits with single underscores
  between them, trailing whitespace, and then the end of the bytes. Anything else is a
  \<open>ValueError\<close>. (The limit of 4300 decimal digits is out of reach: a report holds at
  most 1024 bytes.)
\<close>

definition is_space :: "char \<Rightarrow> bool" where
  "is_space c \<longleftrightarrow>
     c = CHR '' '' \<or> c = CHR 0x09 \<or> c = CHR 0x0A \<or> c = CHR 0x0B \<or> c = CHR 0x0C \<or> c = CHR 0x0D"

definition digit_value :: "char \<Rightarrow> nat" where
  "digit_value c =
     (let n = (of_char c :: nat) in
      if 48 \<le> n \<and> n \<le> 57 then n - 48
      else if 97 \<le> n \<and> n \<le> 122 then n - 87
      else if 65 \<le> n \<and> n \<le> 90 then n - 55
      else 37)"

fun scan_digits :: "nat \<Rightarrow> char \<Rightarrow> nat \<Rightarrow> bytes \<Rightarrow> (nat \<times> bytes) option" where
  "scan_digits base prev acc [] = (if prev = CHR ''_'' then None else Some (acc, []))"
| "scan_digits base prev acc (c # cs) =
     (if c = CHR ''_'' then (if prev = CHR ''_'' then None else scan_digits base c acc cs)
      else if digit_value c < base then scan_digits base c (acc * base + digit_value c) cs
      else if prev = CHR ''_'' then None
      else Some (acc, c # cs))"

definition skip_sign :: "bytes \<Rightarrow> int \<times> bytes" where
  "skip_sign s =
     (case s of
        [] \<Rightarrow> (1, s)
      | c # r \<Rightarrow> if c = CHR ''+'' then (1, r) else if c = CHR ''-'' then (- 1, r) else (1, s))"

definition skip_radix_prefix :: "nat \<Rightarrow> bytes \<Rightarrow> bytes" where
  "skip_radix_prefix base s =
     (case s of
        c0 # c1 # r \<Rightarrow>
          if c0 = CHR ''0'' \<and>
             (base = 16 \<and> (c1 = CHR ''x'' \<or> c1 = CHR ''X'') \<or>
              base = 8 \<and> (c1 = CHR ''o'' \<or> c1 = CHR ''O'') \<or>
              base = 2 \<and> (c1 = CHR ''b'' \<or> c1 = CHR ''B''))
          then (case r of [] \<Rightarrow> r | u # r' \<Rightarrow> if u = CHR ''_'' then r' else r)
          else s
      | _ \<Rightarrow> s)"

definition py_int :: "nat \<Rightarrow> bytes \<Rightarrow> exn + int" where
  "py_int base s =
     (let (sign, s2) = skip_sign (dropWhile is_space s);
          start = skip_radix_prefix base s2
      in if startswith start ''_'' then Inl ValueError
         else (case scan_digits base (CHR 0x00) 0 start of
                 None \<Rightarrow> Inl ValueError
               | Some (v, rest) \<Rightarrow>
                   if rest = start then Inl ValueError
                   else if dropWhile is_space rest = [] then Inr (sign * int v)
                   else Inl ValueError))"

subsection \<open>\<open>hex\<close>, \<open>zfill\<close>, \<open>encode\<close>\<close>

definition hex_char :: "nat \<Rightarrow> char" where
  "hex_char d = ''0123456789abcdef'' ! d"

fun hex_digits :: "nat \<Rightarrow> string" where
  "hex_digits n = (if n < 16 then [hex_char n] else hex_digits (n div 16) @ [hex_char (n mod 16)])"

declare hex_digits.simps [simp del]

definition py_hex :: "int \<Rightarrow> str" where
  "py_hex n =
     (if n < 0 then ascii (''-0x'' @ hex_digits (nat (- n)))
      else ascii (''0x'' @ hex_digits (nat n)))"

text \<open>\<open>s.zfill(width)\<close> pads with zeros on the left, after a leading sign.\<close>

definition zfill :: "nat \<Rightarrow> str \<Rightarrow> str" where
  "zfill width s =
     (if width \<le> length s then s
      else (case s of
              [] \<Rightarrow> replicate width 48
            | c # r \<Rightarrow>
                if c = 43 \<or> c = 45 then c # replicate (width - length s) 48 @ r
                else replicate (width - length s) 48 @ s))"

text \<open>
  \<open>s.encode('utf-8')\<close>: one to four bytes per code point; a surrogate code point
  (\<open>0xD800\<close> to \<open>0xDFFF\<close>) raises \<open>UnicodeEncodeError\<close>. Python's code points are
  below \<open>0x110000\<close>.
\<close>

definition utf8_char :: "nat \<Rightarrow> exn + bytes" where
  "utf8_char c =
     (if c < 0x80 then Inr [char_of c]
      else if c < 0x800 then Inr [char_of (0xC0 + c div 0x40), char_of (0x80 + c mod 0x40)]
      else if 0xD800 \<le> c \<and> c < 0xE000 then Inl UnicodeEncodeError
      else if c < 0x10000 then
        Inr [char_of (0xE0 + c div 0x1000), char_of (0x80 + c div 0x40 mod 0x40),
             char_of (0x80 + c mod 0x40)]
      else
        Inr [char_of (0xF0 + c div 0x40000), char_of (0x80 + c div 0x1000 mod 0x40),
             char_of (0x80 + c div 0x40 mod 0x40), char_of (0x80 + c mod 0x40)])"

definition encode_utf8 :: "str \<Rightarrow> exn + bytes" where
  "encode_utf8 s = (case list_comp utf8_char s of Inl e \<Rightarrow> Inl e | Inr bs \<Rightarrow> Inr (concat bs))"

text \<open>The payload of \<open>query\<close> and \<open>write\<close> is \<open>Union[str, bytes]\<close>.\<close>

datatype payload = Str str | Bytes bytes

text \<open>\<open>s if isinstance(s, bytes) else s.encode('utf-8')\<close>\<close>

definition to_bytes :: "payload \<Rightarrow> exn + bytes" where
  "to_bytes s = (case s of Bytes b \<Rightarrow> Inr b | Str t \<Rightarrow> encode_utf8 t)"

section \<open>The terminal device and the OS calls\<close>

text \<open>
  A call either returns, raises, or never returns (a wait with no timeout on a terminal
  that stays silent).
\<close>

datatype 'r outcome = Returns 'r | Raises exn | Blocks

datatype tcwhen = TCSANOW | TCSADRAIN | TCSAFLUSH

datatype 'a os_call =
    Isatty int
  | Tcgetattr int
  | Tcsetattr int tcwhen 'a
  | Setcbreak int tcwhen
  | Write int bytes
  | Select int "real option"
  | Read int nat
  | Ioctl_TIOCGWINSZ int
  | Close int

text \<open>
  The world is the terminal device behind the handle's descriptor, with what the
  environment will do next. \<open>'a\<close> is the type of attribute sets (what \<open>tcgetattr\<close>
  returns); \<open>cbreak_of\<close> is what \<open>tty.setcbreak\<close> makes of one. \<open>winsize\<close> is the
  \<open>struct winsize\<close> the ioctl fills in (\<open>None\<close>: the ioctl raises). \<open>wcaps\<close> are the
  byte counts the device accepts on the coming \<open>os.write\<close> calls (all of the data once
  the list is used up), \<open>arrivals\<close> what the terminal sends during the coming waits
  (\<open>[]\<close>: nothing), \<open>inq\<close> the input received and not yet read, \<open>wire\<close> the bytes the
  device has accepted, and \<open>trace\<close> the OS calls made so far, oldest first. The OS calls
  on the open terminal succeed; only the ioctl, whose failure the source handles, and
  \<open>select\<close> can raise.
\<close>

record 'a world =
  tattr :: 'a
  cbreak_of :: "'a \<Rightarrow> 'a"
  is_tty :: "int \<Rightarrow> bool"
  winsize :: "(16 word \<times> 16 word \<times> 16 word \<times> 16 word) option"
  wcaps :: "nat list"
  arrivals :: "bytes list"
  inq :: bytes
  wire :: bytes
  trace :: "'a os_call list"

definition logged :: "'a os_call \<Rightarrow> 'a world \<Rightarrow> 'a world" where
  "logged c w = w\<lparr>trace := trace w @ [c]\<rparr>"

definition os_isatty :: "int \<Rightarrow> 'a world \<Rightarrow> bool \<times> 'a world" where
  "os_isatty fd w = (is_tty w fd, logged (Isatty fd) w)"

definition tcgetattr :: "int \<Rightarrow> 'a world \<Rightarrow> 'a \<times> 'a world" where
  "tcgetattr fd w = (tattr w, logged (Tcgetattr fd) w)"

definition tcsetattr :: "int \<Rightarrow> tcwhen \<Rightarrow> 'a \<Rightarrow> 'a world \<Rightarrow> 'a world" where
  "tcsetattr fd when a w = (logged (Tcsetattr fd when a) w)\<lparr>tattr := a\<rparr>"

definition setcbreak :: "int \<Rightarrow> tcwhen \<Rightarrow> 'a world \<Rightarrow> 'a world" where
  "setcbreak fd when w = (logged (Setcbreak fd when) w)\<lparr>tattr := cbreak_of w (tattr w)\<rparr>"

definition os_close :: "int \<Rightarrow> 'a world \<Rightarrow> 'a world" where
  "os_close fd w = logged (Close fd) w"

text \<open>\<open>os.write\<close> returns how many bytes of the data the device took.\<close>

definition os_write :: "int \<Rightarrow> bytes \<Rightarrow> 'a world \<Rightarrow> nat \<times> 'a world" where
  "os_write fd data w =
     (let (cap, rest) = (case wcaps w of [] \<Rightarrow> (length data, []) | c # cs \<Rightarrow> (c, cs));
          sent = min cap (length data)
      in (sent, (logged (Write fd data) w)\<lparr>wcaps := rest, wire := wire w @ take sent data\<rparr>))"

definition next_arrival :: "'a world \<Rightarrow> 'a world" where
  "next_arrival w =
     (case arrivals w of
        [] \<Rightarrow> w
      | a # rest \<Rightarrow> w\<lparr>arrivals := rest, inq := inq w @ a\<rparr>)"

text \<open>
  \<open>select([fd], [], [], timeout)\<close>; the result says whether the list of readable
  descriptors is non-empty. The timeout is \<open>None\<close> or a number of seconds (a real
  number stands for the float). A negative timeout is a \<open>ValueError\<close>; with timeout
  \<open>None\<close> the wait has no end. How long a wait lasts is not modelled: \<open>arrivals\<close> says
  what has come in when it is over.
\<close>

definition os_select :: "int \<Rightarrow> real option \<Rightarrow> 'a world \<Rightarrow> bool outcome \<times> 'a world" where
  "os_select fd timeout w =
     (let w1 = logged (Select fd timeout) w in
      if (case timeout of None \<Rightarrow> False | Some t \<Rightarrow> t < 0) then (Raises ValueError, w1)
      else if inq w1 \<noteq> [] then (Returns True, w1)
      else (let w2 = next_arrival w1 in
            if inq w2 \<noteq> [] then (Returns True, w2)
            else if timeout = None then (Blocks, w2)
            else (Returns False, w2)))"

definition os_read :: "int \<Rightarrow> nat \<Rightarrow> 'a world \<Rightarrow> bytes outcome \<times> 'a world" where
  "os_read fd n w =
     (let w1 = logged (Read fd n) w in
      if n = 0 then (Returns [], w1)
      else (let w2 = (if inq w1 = [] then next_arrival w1 else w1) in
            if inq w2 = [] then (Blocks, w2)
            else (Returns (take n (inq w2)), w2\<lparr>inq := drop n (inq w2)\<rparr>)))"

text \<open>\<open>ioctl(fd, TIOCGWINSZ, pack('HHHH', 0, 0, 0, 0))\<close>\<close>

definition ioctl_winsize ::
  "int \<Rightarrow> 'a world \<Rightarrow> (16 word \<times> 16 word \<times> 16 word \<times> 16 word) option \<times> 'a world" where
  "ioctl_winsize fd w = (winsize w, logged (Ioctl_TIOCGWINSZ fd) w)"

section \<open>TerminalContext\<close>

record 'a handle =
  close_fd :: bool
  fd :: int
  is_cbreak :: bool
  initial_attr :: 'a

text \<open>
  A method takes the handle and the world and returns its outcome with both as it
  leaves them.
\<close>

definition then_do ::
  "'r outcome \<times> 's \<Rightarrow> ('r \<Rightarrow> 's \<Rightarrow> 'q outcome \<times> 's) \<Rightarrow> 'q outcome \<times> 's" where
  "then_do m f =
     (case m of
        (Returns x, s) \<Rightarrow> f x s
      | (Raises e, s) \<Rightarrow> (Raises e, s)
      | (Blocks, s) \<Rightarrow> (Blocks, s))"

text \<open>\<open>TerminalContext(fd, close_fd)\<close>\<close>

definition init :: "int \<Rightarrow> bool \<Rightarrow> 'a world \<Rightarrow> 'a handle outcome \<times> 'a world" where
  "init fd0 close_fd0 w =
     (let (tty, w1) = os_isatty fd0 w in
      if \<not> tty then (Raises TypeError, w1)
      else (let (a, w2) = tcgetattr fd0 w1 in
            (Returns \<lparr>close_fd = close_fd0, fd = fd0, is_cbreak = False, initial_attr = a\<rparr>, w2)))"

definition close :: "'a handle \<Rightarrow> 'a world \<Rightarrow> 'a world" where
  "close h w =
     (let w1 = tcsetattr (fd h) TCSADRAIN (initial_attr h) w in
      if close_fd h then os_close (fd h) w1 else w1)"

text \<open>
  \<open>with self.cbreak_mode(): body\<close>. The body is any code: it gets the handle and the
  world and returns its outcome. The \<open>finally\<close> block runs when the body returns or
  raises, not when it never comes back.
\<close>

definition cbreak_mode ::
  "'a handle \<Rightarrow> 'a world \<Rightarrow> ('a handle \<Rightarrow> 'a world \<Rightarrow> 'r outcome \<times> 'a handle \<times> 'a world)
     \<Rightarrow> 'r outcome \<times> 'a handle \<times> 'a world" where
  "cbreak_mode h w body =
     (if is_cbreak h then body h w
      else (let (saved, w1) = tcgetattr (fd h) w;
                w2 = setcbreak (fd h) TCSADRAIN w1;
                (r, h3, w3) = body (h\<lparr>is_cbreak := True\<rparr>) w2
            in if r = Blocks then (r, h3, w3)
               else (r, h3\<lparr>is_cbreak := False\<rparr>, tcsetattr (fd h3) TCSADRAIN saved w3)))"

text \<open>
  A caller's \<open>with self.cbreak_mode():\<close> repeated \<open>n\<close> times around a body, each scope
  directly inside the one before.
\<close>

fun nested ::
  "nat \<Rightarrow> ('a handle \<Rightarrow> 'a world \<Rightarrow> 'r outcome \<times> 'a handle \<times> 'a world)
     \<Rightarrow> 'a handle \<Rightarrow> 'a world \<Rightarrow> 'r outcome \<times> 'a handle \<times> 'a world" where
  "nested 0 body h w = body h w"
| "nested (Suc n) body h w = cbreak_mode h w (nested n body)"

definition query ::
  "'a handle \<Rightarrow> 'a world \<Rightarrow> payload \<Rightarrow> real option \<Rightarrow> bytes outcome \<times> 'a handle \<times> 'a world" where
  "query h w s timeout =
     cbreak_mode h w (\<lambda>h w.
       case to_bytes s of
         Inl e \<Rightarrow> (Raises e, h, w)
       | Inr data \<Rightarrow>
           (let (sent, w1) = os_write (fd h) data w;
                (can_read, w2) = os_select (fd h) timeout w1
            in then_do (can_read, h, w2) (\<lambda>can_read (h, w).
                 if can_read then (let (r, w3) = os_read (fd h) 1024 w in (r, h, w3))
                 else (Returns [], h, w))))"

text \<open>
  The two blocks of \<open>get_size\<close> that read a report: the pair of integers if the report
  has the shape and both fields parse, else nothing is assigned.
\<close>

definition parse_pair :: "bytes \<Rightarrow> bytes \<Rightarrow> (int \<times> int) option" where
  "parse_pair pre report =
     (if startswith report pre \<and> endswith report ''t'' then
        (case list_comp (py_int 10) (bytes_split (CHR '';'') (drop 4 (butlast report))) of
           Inr [a, b] \<Rightarrow> Some (a, b)
         | _ \<Rightarrow> None)
      else None)"

definition get_size ::
  "'a handle \<Rightarrow> 'a world \<Rightarrow> (int \<times> int \<times> int \<times> int) outcome \<times> 'a handle \<times> 'a world" where
  "get_size h w =
     (let (packed, w1) = ioctl_winsize (fd h) w;
          (rows, cols, xpixel, ypixel) =
            (case packed of
               None \<Rightarrow> (0, 0, 0, 0)
             | Some (r, c, x, y) \<Rightarrow> (uint r, uint c, uint x, uint y))
      in then_do
           (if rows = 0 \<or> cols = 0 then
              then_do (query h w1 (Str (ascii (ESC # ''[18t''))) (Some 0.05))
                (\<lambda>report s.
                   (Returns (case parse_pair (ESC # ''[8;'') report of
                               Some (r, c) \<Rightarrow> (r, c)
                             | None \<Rightarrow> (rows, cols)), s))
            else (Returns (rows, cols), h, w1))
           (\<lambda>(rows, cols) (h2, w2).
              then_do
                (if xpixel = 0 \<or> ypixel = 0 then
                   then_do (query h2 w2 (Str (ascii (ESC # ''[14t''))) (Some 0.05))
                     (\<lambda>report s.
                        (Returns (case parse_pair (ESC # ''[4;'') report of
                                    Some (y, x) \<Rightarrow> (x, y)
                                  | None \<Rightarrow> (xpixel, ypixel)), s))
                 else (Returns (xpixel, ypixel), h2, w2))
                (\<lambda>(xpixel, ypixel) s. (Returns (cols, rows, xpixel, ypixel), s))))"

text \<open>
  The method \<open>write\<close> and its loop
  \<open>while sent: data = data[sent:]; sent = os.write(fd, data)\<close>
\<close>

function write_rest :: "int \<Rightarrow> bytes \<Rightarrow> nat \<Rightarrow> 'a world \<Rightarrow> 'a world" where
  "write_rest fd0 data sent w =
     (if sent = 0 then w
      else (let data' = drop sent data;
                (sent', w') = os_write fd0 data' w
            in write_rest fd0 data' sent' w'))"
  by pat_completeness auto
termination
  by (relation "measure (\<lambda>(fd0, data, sent, w). length data + (if sent = 0 then 0 else 1))")
     (auto simp: os_write_def Let_def split: list.splits)

declare write_rest.simps [simp del]

definition write_bytes :: "'a handle \<Rightarrow> 'a world \<Rightarrow> payload \<Rightarrow> unit outcome \<times> 'a handle \<times> 'a world" where
  "write_bytes h w s =
     (case to_bytes s of
        Inl e \<Rightarrow> (Raises e, h, w)
      | Inr data \<Rightarrow>
          (let (sent, w1) = os_write (fd h) data w
           in (Returns (), h, write_rest (fd h) data sent w1)))"

text \<open>The channel of a colour report: \<open>hex(int(v, 16) >> 8)[2:].zfill(2)\<close>\<close>

definition channel :: "bytes \<Rightarrow> exn + str" where
  "channel v =
     (case py_int 16 v of
        Inl e \<Rightarrow> Inl e
      | Inr n \<Rightarrow> Inr (zfill 2 (drop 2 (py_hex (n div 256)))))"

definition query_color ::
  "'a handle \<Rightarrow> 'a world \<Rightarrow> str \<Rightarrow> str option outcome \<times> 'a handle \<times> 'a world" where
  "query_color h w slot =
     (let val = (if slot = ascii ''fg'' then ascii ''10''
                 else if slot = ascii ''bg'' then ascii ''11''
                 else ascii ''4;'' @ slot)
      in then_do
           (query h w (Str (ascii [ESC, CHR '']''] @ val @ ascii ('';?'' @ [ESC, BSL])))
              (Some 0.05))
           (\<lambda>report s.
              if startswith report [ESC, CHR '']''] \<and>
                 (endswith report [ESC, BSL] \<or> endswith report [BEL])
              then
                (let offset = (if slot = ascii ''fg'' \<or> slot = ascii ''bg'' then 2
                               else length (ascii ''4;'' @ slot));
                     spec = rstrip [BEL] (rstrip [ESC, BSL] (drop (3 + offset) report))
                 in if startswith spec ''rgb:'' then
                      (case list_comp channel (bytes_split (CHR ''/'') (drop 4 spec)) of
                         Inl e \<Rightarrow> (Raises e, s)
                       | Inr [r, g, b] \<Rightarrow> (Returns (Some (ascii ''#'' @ r @ g @ b)), s)
                       | Inr _ \<Rightarrow> (Raises ValueError, s))
                    else (Returns None, s))
              else (Returns None, s)))"

section \<open>What a run shows\<close>

text \<open>
  \<open>readable w\<close> is what a reader finds at the end of the next wait: the input already
  received, else what the terminal sends during the wait (nothing if it stays silent).
  \<open>accepted w data\<close> is how many bytes of \<open>data\<close> the next \<open>os.write\<close> takes.
  \<open>writes\<close> and \<open>reads\<close> pick from a trace the payloads of the \<open>os.write\<close> calls and
  the \<open>os.read\<close> calls.
\<close>

definition readable :: "'a world \<Rightarrow> bytes" where
  "readable w = (if inq w \<noteq> [] then inq w else (case arrivals w of [] \<Rightarrow> [] | a # _ \<Rightarrow> a))"

definition accepted :: "'a world \<Rightarrow> bytes \<Rightarrow> nat" where
  "accepted w data = min (case wcaps w of [] \<Rightarrow> length data | c # _ \<Rightarrow> c) (length data)"

fun writes :: "'a os_call list \<Rightarrow> bytes list" where
  "writes [] = []"
| "writes (Write fd0 data # cs) = data # writes cs"
| "writes (c # cs) = writes cs"

fun reads :: "'a os_call list \<Rightarrow> 'a os_call list" where
  "reads [] = []"
| "reads (Read fd0 n # cs) = Read fd0 n # reads cs"
| "reads (c # cs) = reads cs"

text \<open>
  The world after a \<open>query\<close> that came back: one write, one wait, a read if there was
  something to read, and the scope around them entered and left.
\<close>

definition after_query :: "'a handle \<Rightarrow> bytes \<Rightarrow> real option \<Rightarrow> 'a world \<Rightarrow> 'a world" where
  "after_query h data timeout w =
     w\<lparr>wcaps := tl (wcaps w),
       wire := wire w @ take (accepted w data) data,
       arrivals := (if inq w = [] then tl (arrivals w) else arrivals w),
       inq := drop 1024 (readable w),
       trace := trace w
         @ (if is_cbreak h then [] else [Tcgetattr (fd h), Setcbreak (fd h) TCSADRAIN])
         @ [Write (fd h) data, Select (fd h) timeout]
         @ (if readable w = [] then [] else [Read (fd h) 1024])
         @ (if is_cbreak h then [] else [Tcsetattr (fd h) TCSADRAIN (tattr w)])\<rparr>"

text \<open>
  The terminal never sends a minus sign: neither the input already received nor any
  coming arrival holds one.
\<close>

definition minus_free :: "'a world \<Rightarrow> bool" where
  "minus_free w \<longleftrightarrow> CHR ''-'' \<notin> set (inq w) \<union> set (concat (arrivals w))"

text \<open>A channel of exactly four hexadecimal digits, and its first two in lower case.\<close>

definition is_hex :: "char \<Rightarrow> bool" where
  "is_hex c \<longleftrightarrow> digit_value c < 16"

definition hex4 :: "bytes \<Rightarrow> bool" where
  "hex4 v \<longleftrightarrow> length v = 4 \<and> list_all is_hex v"

definition high_byte :: "bytes \<Rightarrow> string" where
  "high_byte v = map (\<lambda>c. hex_char (digit_value c)) (take 2 v)"

subsection \<open>A sample terminal\<close>

text \<open>
  Attribute sets are numbers here, cbreak mode adds 100; descriptor 0 is the terminal,
  the ioctl fails and the terminal is silent.
\<close>

definition tty0 :: "nat world" where
  "tty0 = \<lparr>tattr = 7, cbreak_of = (\<lambda>a. a + 100), is_tty = (\<lambda>d. d = 0), winsize = None,
     wcaps = [], arrivals = [], inq = [], wire = [], trace = []\<rparr>"

definition ctx0 :: "nat handle" where
  "ctx0 = \<lparr>close_fd = True, fd = 0, is_cbreak = False, initial_attr = 7\<rparr>"

section \<open>Lemmas about the OS calls and \<open>query\<close>\<close>

lemma writes_append [simp]: "writes (xs @ ys) = writes xs @ writes ys"
  by (induction xs rule: writes.induct) simp_all

lemma reads_append [simp]: "reads (xs @ ys) = reads xs @ reads ys"
  by (induction xs rule: reads.induct) simp_all

lemma list_comp_utf8_ascii:
  "list_all (\<lambda>c. of_char c < (128::nat)) s \<Longrightarrow>
     list_comp utf8_char (map of_char s) = Inr (map (\<lambda>c. [c]) s)"
  by (induction s) (simp_all add: utf8_char_def)

lemma encode_ascii:
  "list_all (\<lambda>c. of_char c < (128::nat)) s \<Longrightarrow> encode_utf8 (ascii s) = Inr s"
  by (simp add: encode_utf8_def ascii_def list_comp_utf8_ascii)

lemma os_write_sent: "fst (os_write fd0 data w) = accepted w data"
  by (simp add: os_write_def accepted_def Let_def split: list.splits)

lemma os_write_world:
  "snd (os_write fd0 data w) =
     w\<lparr>wcaps := tl (wcaps w), wire := wire w @ take (accepted w data) data,
       trace := trace w @ [Write fd0 data]\<rparr>"
  by (simp add: os_write_def accepted_def logged_def Let_def split: list.splits)

text \<open>
  With a finite timeout that is not negative, \<open>query\<close> returns: the report is the first
  1024 bytes that are readable after the wait, the handle and the attributes are as
  before, and the world has moved on by one write, one wait and at most one read.
\<close>

lemma query_run:
  assumes "to_bytes s = Inr data" and "0 \<le> t"
  shows "query h w s (Some t) =
    (Returns (take 1024 (readable w)), h,
     w\<lparr>wcaps := tl (wcaps w),
       wire := wire w @ take (accepted w data) data,
       arrivals := (if inq w = [] then tl (arrivals w) else arrivals w),
       inq := drop 1024 (readable w),
       trace := trace w
         @ (if is_cbreak h then [] else [Tcgetattr (fd h), Setcbreak (fd h) TCSADRAIN])
         @ [Write (fd h) data, Select (fd h) (Some t)]
         @ (if readable w = [] then [] else [Read (fd h) 1024])
         @ (if is_cbreak h then [] else [Tcsetattr (fd h) TCSADRAIN (tattr w)])\<rparr>)"
  using assms
  by (auto simp: query_def cbreak_mode_def tcgetattr_def setcbreak_def tcsetattr_def os_write_def
      os_select_def os_read_def next_arrival_def logged_def then_do_def readable_def accepted_def
      Let_def split: list.splits prod.splits)

text \<open>
  A wait expires exactly when the timeout is a number that is not negative and nothing
  is readable: with \<open>None\<close> the wait has no end, and \<open>select\<close> rejects a negative one.
\<close>

lemma select_expires_iff:
  "fst (os_select fd0 timeout w) = Returns False \<longleftrightarrow>
     (\<exists>t. timeout = Some t \<and> 0 \<le> t) \<and> readable w = []"
  by (auto simp: os_select_def next_arrival_def logged_def readable_def Let_def
      split: option.splits list.splits)

text \<open>A negative timeout: \<open>select\<close> raises after the write, and the scope is left.\<close>

lemma query_negative:
  assumes "to_bytes s = Inr data" and "t < 0"
  shows "query h w s (Some t) =
    (Raises ValueError, h,
     w\<lparr>wcaps := tl (wcaps w),
       wire := wire w @ take (accepted w data) data,
       trace := trace w
         @ (if is_cbreak h then [] else [Tcgetattr (fd h), Setcbreak (fd h) TCSADRAIN])
         @ [Write (fd h) data, Select (fd h) (Some t)]
         @ (if is_cbreak h then [] else [Tcsetattr (fd h) TCSADRAIN (tattr w)])\<rparr>)"
  using assms
  by (auto simp: query_def cbreak_mode_def tcgetattr_def setcbreak_def tcsetattr_def os_write_def
      os_select_def logged_def then_do_def accepted_def Let_def split: list.splits)

text \<open>
  No timeout: if nothing is readable the call does not come back, and the terminal stays
  in cbreak mode with the flag set; otherwise the run is the one of a finite timeout.
\<close>

lemma query_forever:
  assumes "to_bytes s = Inr data"
  shows "query h w s None =
    (if readable w = [] then
       (Blocks, h\<lparr>is_cbreak := True\<rparr>,
        w\<lparr>tattr := (if is_cbreak h then tattr w else cbreak_of w (tattr w)),
          wcaps := tl (wcaps w),
          wire := wire w @ take (accepted w data) data,
          arrivals := tl (arrivals w),
          trace := trace w
            @ (if is_cbreak h then [] else [Tcgetattr (fd h), Setcbreak (fd h) TCSADRAIN])
            @ [Write (fd h) data, Select (fd h) None]\<rparr>)
     else
       (Returns (take 1024 (readable w)), h,
        w\<lparr>wcaps := tl (wcaps w),
          wire := wire w @ take (accepted w data) data,
          arrivals := (if inq w = [] then tl (arrivals w) else arrivals w),
          inq := drop 1024 (readable w),
          trace := trace w
            @ (if is_cbreak h then [] else [Tcgetattr (fd h), Setcbreak (fd h) TCSADRAIN])
            @ [Write (fd h) data, Select (fd h) None, Read (fd h) 1024]
            @ (if is_cbreak h then [] else [Tcsetattr (fd h) TCSADRAIN (tattr w)])\<rparr>))"
  using assms
  by (auto simp: query_def cbreak_mode_def tcgetattr_def setcbreak_def tcsetattr_def os_write_def
      os_select_def os_read_def next_arrival_def logged_def then_do_def readable_def accepted_def
      Let_def split: list.splits prod.splits)

text \<open>A text that cannot be encoded is never sent: the encoding error is raised.\<close>

lemma query_unencodable:
  assumes "to_bytes s = Inl e"
  shows "fst (query h w s timeout) = Raises e"
    and "writes (trace (snd (snd (query h w s timeout)))) = writes (trace w)"
    and "wire (snd (snd (query h w s timeout))) = wire w"
  using assms
  by (simp_all add: query_def cbreak_mode_def tcgetattr_def setcbreak_def tcsetattr_def logged_def)

lemma write_unencodable:
  assumes "to_bytes s = Inl e"
  shows "write_bytes h w s = (Raises e, h, w)"
  using assms by (simp add: write_bytes_def)

text \<open>Whatever the timeout, \<open>query\<close> makes one write, of the whole request.\<close>

lemma query_write_effect:
  assumes enc: "to_bytes s = Inr data"
  shows "writes (trace (snd (snd (query h w s timeout)))) = writes (trace w) @ [data] \<and>
     wire (snd (snd (query h w s timeout))) = wire w @ take (accepted w data) data"
proof (cases timeout)
  case None
  with enc show ?thesis by (simp add: query_forever)
next
  case (Some t)
  show ?thesis
  proof (cases "t < 0")
    case True
    with enc Some show ?thesis by (simp add: query_negative)
  next
    case False
    with enc Some show ?thesis by (simp add: query_run)
  qed
qed

lemma logged_simps [simp]:
  "tattr (logged c w) = tattr w"
  "winsize (logged c w) = winsize w"
  "wcaps (logged c w) = wcaps w"
  "arrivals (logged c w) = arrivals w"
  "inq (logged c w) = inq w"
  "wire (logged c w) = wire w"
  "trace (logged c w) = trace w @ [c]"
  by (simp_all add: logged_def)

lemma readable_logged [simp]: "readable (logged c w) = readable w"
  by (simp add: readable_def logged_def)

lemma of_char_ESC [simp]: "of_char ESC = (27::nat)"
  by (simp add: ESC_def)

lemma query_after:
  assumes "to_bytes s = Inr data" and "0 \<le> t"
  shows "query h w s (Some t) =
    (Returns (take 1024 (readable w)), h, after_query h data (Some t) w)"
  using assms by (simp add: query_run after_query_def)

lemma query_text_after:
  assumes "list_all (\<lambda>c. of_char c < (128::nat)) s" and "0 \<le> t"
  shows "query h w (Str (ascii s)) (Some t) =
    (Returns (take 1024 (readable w)), h, after_query h s (Some t) w)"
  using assms by (intro query_after) (simp_all add: to_bytes_def encode_ascii)

lemma after_query_simps [simp]:
  "winsize (after_query h data timeout w) = winsize w"
  "tattr (after_query h data timeout w) = tattr w"
  "inq (after_query h data timeout w) = drop 1024 (readable w)"
  "arrivals (after_query h data timeout w) = (if inq w = [] then tl (arrivals w) else arrivals w)"
  "writes (trace (after_query h data timeout w)) = writes (trace w) @ [data]"
  by (simp_all add: after_query_def)

lemma readable_first: "inq w = [] \<Longrightarrow> arrivals w = a # rest \<Longrightarrow> readable w = a"
  by (simp add: readable_def)

lemma readable_second:
  "inq w = [] \<Longrightarrow> arrivals w = a # b # rest \<Longrightarrow> length a \<le> 1024 \<Longrightarrow>
     readable (after_query h d t (logged c w)) = b"
  by (simp add: readable_def)

subsection \<open>The loop of \<open>write\<close> sends everything a willing device takes\<close>

lemma write_rest_wire:
  "list_all (\<lambda>c. 0 < c) (wcaps w) \<Longrightarrow> sent \<le> length data \<Longrightarrow> (sent = 0 \<Longrightarrow> data = []) \<Longrightarrow>
     wire (write_rest fd0 data sent w) = wire w @ drop sent data"
proof (induction fd0 data sent w rule: write_rest.induct)
  case (1 fd0 data sent w)
  show ?case
  proof (cases "sent = 0")
    case True
    with "1.prems" show ?thesis by (simp add: write_rest.simps)
  next
    case False
    let ?d = "drop sent data"
    let ?w = "snd (os_write fd0 ?d w)"
    let ?n = "accepted w ?d"
    have caps: "list_all (\<lambda>c. 0 < c) (wcaps ?w)"
      using "1.prems"(1) by (cases "wcaps w") (simp_all add: os_write_world)
    have le: "?n \<le> length ?d"
      by (simp add: accepted_def)
    have zero: "?n = 0 \<Longrightarrow> ?d = []"
      using "1.prems"(1) by (cases "wcaps w") (auto simp: accepted_def min_def split: if_splits)
    have pair: "(?n, ?w) = os_write fd0 ?d w"
      using os_write_sent [of fd0 ?d w] by (cases "os_write fd0 ?d w") simp
    have "wire (write_rest fd0 ?d ?n ?w) = wire ?w @ drop ?n ?d"
      using caps le zero by (intro "1.IH" [OF False refl pair]) simp_all
    then show ?thesis
      using False
      by (simp add: write_rest.simps [of fd0 data sent w] Let_def split_beta os_write_sent
          os_write_world del: drop_drop)
  qed
qed

lemma write_bytes_wire:
  assumes "to_bytes s = Inr data" and "list_all (\<lambda>c. 0 < c) (wcaps w)"
  shows "wire (snd (snd (write_bytes h w s))) = wire w @ data"
proof -
  let ?n = "accepted w data"
  let ?w = "snd (os_write (fd h) data w)"
  have caps: "list_all (\<lambda>c. 0 < c) (wcaps ?w)"
    using assms(2) by (cases "wcaps w") (simp_all add: os_write_world)
  have zero: "?n = 0 \<Longrightarrow> data = []"
    using assms(2) by (cases "wcaps w") (auto simp: accepted_def min_def split: if_splits)
  have "wire (write_rest (fd h) data ?n ?w) = wire ?w @ drop ?n data"
    using caps zero by (intro write_rest_wire) (simp_all add: accepted_def)
  then show ?thesis
    using assms(1) by (simp add: write_bytes_def split_beta os_write_sent os_write_world)
qed

lemma write_rest_trace: "\<exists>cs. trace (write_rest fd0 data sent w) = trace w @ cs"
proof (induction fd0 data sent w rule: write_rest.induct)
  case (1 fd0 data sent w)
  show ?case
  proof (cases "sent = 0")
    case True
    then show ?thesis by (simp add: write_rest.simps)
  next
    case False
    let ?d = "drop sent data"
    let ?w = "snd (os_write fd0 ?d w)"
    let ?n = "accepted w ?d"
    have pair: "(?n, ?w) = os_write fd0 ?d w"
      using os_write_sent [of fd0 ?d w] by (cases "os_write fd0 ?d w") simp
    from "1.IH" [OF False refl pair]
    obtain cs where "trace (write_rest fd0 ?d ?n ?w) = trace ?w @ cs" by blast
    then show ?thesis
      using False
      by (simp add: write_rest.simps [of fd0 data sent w] Let_def split_beta os_write_sent
          os_write_world)
  qed
qed

section \<open>The cbreak scope\<close>

lemma nested_active: "is_cbreak h \<Longrightarrow> nested n body h w = body h w"
proof (induction n arbitrary: h w)
  case 0
  show ?case by simp
next
  case (Suc n)
  from Suc.prems have "nested (Suc n) body h w = nested n body h w"
    by (simp add: cbreak_mode_def)
  also from Suc.prems have "\<dots> = body h w"
    by (rule Suc.IH)
  finally show ?case .
qed

text \<open>
  Claim C1. The cbreak scope is a machine with one flag. Entered while the flag is set,
  the scope is its body and nothing else: no \<open>tcgetattr\<close>, no change of attributes.
  Entered while the flag is clear, it runs the body with the flag set in cbreak mode,
  and when the body returns or raises (every outcome but not coming back) the outcome
  is passed on, the attribute set read at entry is applied again as the last OS call,
  and the flag is cleared. Scopes nested to any depth are therefore the outermost scope
  alone: the inner entries neither read nor set attributes, and what is restored at the
  end is what the outermost entry read.
\<close>

theorem cbreak_scope_single_flag:
  "(is_cbreak h \<longrightarrow> cbreak_mode h w body = body h w) \<and>
   (\<not> is_cbreak h \<and>
    body (h\<lparr>is_cbreak := True\<rparr>) (setcbreak (fd h) TCSADRAIN (snd (tcgetattr (fd h) w)))
      = (r, h', w') \<and>
    r \<noteq> Blocks \<longrightarrow>
      cbreak_mode h w body =
        (r, h'\<lparr>is_cbreak := False\<rparr>,
         w'\<lparr>tattr := tattr w, trace := trace w' @ [Tcsetattr (fd h') TCSADRAIN (tattr w)]\<rparr>)) \<and>
   (\<not> is_cbreak h \<longrightarrow> nested (Suc n) body h w = cbreak_mode h w body)"
proof (intro conjI impI)
  assume "is_cbreak h"
  then show "cbreak_mode h w body = body h w"
    by (simp add: cbreak_mode_def)
next
  assume a: "\<not> is_cbreak h \<and>
    body (h\<lparr>is_cbreak := True\<rparr>) (setcbreak (fd h) TCSADRAIN (snd (tcgetattr (fd h) w)))
      = (r, h', w') \<and> r \<noteq> Blocks"
  have exit: "tcsetattr (fd h') TCSADRAIN (tattr w) w' =
      w'\<lparr>tattr := tattr w, trace := trace w' @ [Tcsetattr (fd h') TCSADRAIN (tattr w)]\<rparr>"
    by (simp add: tcsetattr_def logged_def)
  from a show "cbreak_mode h w body =
        (r, h'\<lparr>is_cbreak := False\<rparr>,
         w'\<lparr>tattr := tattr w, trace := trace w' @ [Tcsetattr (fd h') TCSADRAIN (tattr w)]\<rparr>)"
    unfolding exit [symmetric] by (simp add: cbreak_mode_def tcgetattr_def)
next
  assume off: "\<not> is_cbreak h"
  have inner: "nested n body (h\<lparr>is_cbreak := True\<rparr>) v = body (h\<lparr>is_cbreak := True\<rparr>) v" for v
    by (rule nested_active) simp
  from off show "nested (Suc n) body h w = cbreak_mode h w body"
    by (simp add: cbreak_mode_def inner)
qed

text \<open>
  On the sample terminal, with a body that sets other attributes and then raises: the
  attributes are 7 again and the flag is clear, also for three scopes in one another;
  with the flag set the scope adds nothing.
\<close>

theorem cbreak_scope_single_flag_witness:
  "cbreak_mode ctx0 tty0 (\<lambda>h w. (Raises ValueError :: unit outcome, h, tcsetattr (fd h) TCSANOW 5 w)) =
     (Raises ValueError, ctx0,
      tty0\<lparr>trace := [Tcgetattr 0, Setcbreak 0 TCSADRAIN, Tcsetattr 0 TCSANOW 5,
                      Tcsetattr 0 TCSADRAIN 7]\<rparr>) \<and>
   nested (Suc 2) (\<lambda>h w. (Raises ValueError :: unit outcome, h, tcsetattr (fd h) TCSANOW 5 w))
       ctx0 tty0 =
     (Raises ValueError, ctx0,
      tty0\<lparr>trace := [Tcgetattr 0, Setcbreak 0 TCSADRAIN, Tcsetattr 0 TCSANOW 5,
                      Tcsetattr 0 TCSADRAIN 7]\<rparr>) \<and>
   cbreak_mode (ctx0\<lparr>is_cbreak := True\<rparr>) tty0
     (\<lambda>h w. (Raises ValueError :: unit outcome, h, tcsetattr (fd h) TCSANOW 5 w)) =
     (Raises ValueError, ctx0\<lparr>is_cbreak := True\<rparr>, tty0\<lparr>tattr := 5, trace := [Tcsetattr 0 TCSANOW 5]\<rparr>)"
proof -
  let ?body = "\<lambda>h w. (Raises ValueError :: unit outcome, h, tcsetattr (fd h) TCSANOW 5 w)"
  let ?w' = "tty0\<lparr>tattr := 5, trace := [Tcgetattr 0, Setcbreak 0 TCSADRAIN, Tcsetattr 0 TCSANOW 5]\<rparr>"
  have off: "\<not> is_cbreak ctx0"
    by (simp add: ctx0_def)
  have b: "?body (ctx0\<lparr>is_cbreak := True\<rparr>)
      (setcbreak (fd ctx0) TCSADRAIN (snd (tcgetattr (fd ctx0) tty0))) =
      (Raises ValueError, ctx0\<lparr>is_cbreak := True\<rparr>, ?w')"
    by (simp add: ctx0_def tty0_def tcgetattr_def setcbreak_def tcsetattr_def logged_def)
  note th = cbreak_scope_single_flag [of ctx0 tty0 ?body "Raises ValueError"
      "ctx0\<lparr>is_cbreak := True\<rparr>" ?w' 2]
  from th off b have one: "cbreak_mode ctx0 tty0 ?body =
      (Raises ValueError, ctx0,
       tty0\<lparr>trace := [Tcgetattr 0, Setcbreak 0 TCSADRAIN, Tcsetattr 0 TCSANOW 5,
                       Tcsetattr 0 TCSADRAIN 7]\<rparr>)"
    by (simp add: ctx0_def tty0_def del: nested.simps)
  from th off have "nested (Suc 2) ?body ctx0 tty0 = cbreak_mode ctx0 tty0 ?body"
    by blast
  with one have three: "nested (Suc 2) ?body ctx0 tty0 =
      (Raises ValueError, ctx0,
       tty0\<lparr>trace := [Tcgetattr 0, Setcbreak 0 TCSADRAIN, Tcsetattr 0 TCSANOW 5,
                       Tcsetattr 0 TCSADRAIN 7]\<rparr>)"
    by simp
  from cbreak_scope_single_flag [of "ctx0\<lparr>is_cbreak := True\<rparr>" tty0 ?body]
  have "cbreak_mode (ctx0\<lparr>is_cbreak := True\<rparr>) tty0 ?body = ?body (ctx0\<lparr>is_cbreak := True\<rparr>) tty0"
    by simp
  then have active: "cbreak_mode (ctx0\<lparr>is_cbreak := True\<rparr>) tty0 ?body =
      (Raises ValueError, ctx0\<lparr>is_cbreak := True\<rparr>, tty0\<lparr>tattr := 5, trace := [Tcsetattr 0 TCSANOW 5]\<rparr>)"
    by (simp add: ctx0_def tty0_def tcsetattr_def logged_def)
  from one three active show ?thesis
    by (intro conjI)
qed

section \<open>Closing the handle\<close>

text \<open>
  Claim C2. For a handle made by the constructor in a world \<open>w0\<close>, \<open>close\<close> in any later
  world \<open>w\<close>, whatever its attributes are by then and whatever the cbreak flag says,
  applies the attribute set of \<open>w0\<close> and then closes the descriptor exactly if
  \<open>close_fd\<close> was given. Nothing else of the world changes, and the flag is not read.
\<close>

theorem close_restores_initial:
  "init fd0 cfd w0 = (Returns h, w1) \<longrightarrow>
     close (h\<lparr>is_cbreak := b\<rparr>) w =
       w\<lparr>tattr := tattr w0,
         trace := trace w @ Tcsetattr fd0 TCSADRAIN (tattr w0) # (if cfd then [Close fd0] else [])\<rparr> \<and>
     close (h\<lparr>is_cbreak := b\<rparr>) w = close h w"
proof
  assume made: "init fd0 cfd w0 = (Returns h, w1)"
  then have "is_tty w0 fd0"
    by (auto simp: init_def os_isatty_def split: if_splits)
  with made have h: "h = \<lparr>close_fd = cfd, fd = fd0, is_cbreak = False, initial_attr = tattr w0\<rparr>"
    by (simp add: init_def os_isatty_def tcgetattr_def)
  have applied: "tcsetattr fd0 TCSADRAIN (tattr w0) w =
      w\<lparr>tattr := tattr w0, trace := trace w @ [Tcsetattr fd0 TCSADRAIN (tattr w0)]\<rparr>"
    by (simp add: tcsetattr_def logged_def)
  have "close (h\<lparr>is_cbreak := b\<rparr>) w =
      w\<lparr>tattr := tattr w0,
        trace := trace w @ Tcsetattr fd0 TCSADRAIN (tattr w0) # (if cfd then [Close fd0] else [])\<rparr>"
    by (simp add: h close_def applied os_close_def logged_def)
  moreover have "close (h\<lparr>is_cbreak := b\<rparr>) w = close h w"
    by (simp add: close_def Let_def)
  ultimately show "close (h\<lparr>is_cbreak := b\<rparr>) w =
       w\<lparr>tattr := tattr w0,
         trace := trace w @ Tcsetattr fd0 TCSADRAIN (tattr w0) # (if cfd then [Close fd0] else [])\<rparr> \<and>
     close (h\<lparr>is_cbreak := b\<rparr>) w = close h w"
    by simp
qed

text \<open>
  The sample handle is what the constructor makes on the sample terminal; closed inside
  a cbreak scope (attributes 107, flag set) it applies 7 and closes descriptor 0.
\<close>

theorem close_restores_initial_witness:
  "init 0 True tty0 = (Returns ctx0, tty0\<lparr>trace := [Isatty 0, Tcgetattr 0]\<rparr>) \<and>
   close (ctx0\<lparr>is_cbreak := True\<rparr>) (setcbreak 0 TCSADRAIN tty0) =
     tty0\<lparr>tattr := 7, trace := [Setcbreak 0 TCSADRAIN, Tcsetattr 0 TCSADRAIN 7, Close 0]\<rparr>"
proof -
  have mk: "init 0 True tty0 = (Returns ctx0, tty0\<lparr>trace := [Isatty 0, Tcgetattr 0]\<rparr>)"
    by (simp add: init_def os_isatty_def tcgetattr_def logged_def tty0_def ctx0_def)
  from close_restores_initial [of 0 True tty0 ctx0 "tty0\<lparr>trace := [Isatty 0, Tcgetattr 0]\<rparr>"
      True "setcbreak 0 TCSADRAIN tty0"] mk
  show ?thesis by (simp add: setcbreak_def logged_def tty0_def)
qed

section \<open>\<open>query\<close>\<close>

text \<open>
  Claim C3. For every request (bytes, or text with its encoding \<open>data\<close>) and every
  timeout: if the wait on the descriptor expires, that is \<open>select\<close> returns with no
  descriptor readable because the terminal sent nothing, then \<open>query\<close> returns empty
  bytes. It does not raise, and it makes no \<open>os.read\<close> call: its OS calls are the entry
  into the scope, one write, the wait, and the exit from the scope.
\<close>

theorem query_timeout_returns_empty:
  "to_bytes s = Inr data \<and> fst (os_select (fd h) timeout w) = Returns False \<longrightarrow>
     fst (query h w s timeout) = Returns [] \<and>
     reads (trace (snd (snd (query h w s timeout)))) = reads (trace w) \<and>
     trace (snd (snd (query h w s timeout))) =
       trace w
       @ (if is_cbreak h then [] else [Tcgetattr (fd h), Setcbreak (fd h) TCSADRAIN])
       @ [Write (fd h) data, Select (fd h) timeout]
       @ (if is_cbreak h then [] else [Tcsetattr (fd h) TCSADRAIN (tattr w)])"
proof
  assume a: "to_bytes s = Inr data \<and> fst (os_select (fd h) timeout w) = Returns False"
  then obtain t where t: "timeout = Some t" "0 \<le> t" and silent: "readable w = []"
    by (auto simp: select_expires_iff)
  from a t(2) have run: "query h w s (Some t) =
      (Returns (take 1024 (readable w)), h, after_query h data (Some t) w)"
    by (simp add: query_after)
  have "fst (query h w s timeout) = Returns []"
    by (simp add: t(1) run silent)
  moreover have "trace (snd (snd (query h w s timeout))) =
       trace w
       @ (if is_cbreak h then [] else [Tcgetattr (fd h), Setcbreak (fd h) TCSADRAIN])
       @ [Write (fd h) data, Select (fd h) timeout]
       @ (if is_cbreak h then [] else [Tcsetattr (fd h) TCSADRAIN (tattr w)])"
    by (simp add: t(1) run silent after_query_def)
  moreover from this have "reads (trace (snd (snd (query h w s timeout)))) = reads (trace w)"
    by simp
  ultimately show "fst (query h w s timeout) = Returns [] \<and>
     reads (trace (snd (snd (query h w s timeout)))) = reads (trace w) \<and>
     trace (snd (snd (query h w s timeout))) =
       trace w
       @ (if is_cbreak h then [] else [Tcgetattr (fd h), Setcbreak (fd h) TCSADRAIN])
       @ [Write (fd h) data, Select (fd h) timeout]
       @ (if is_cbreak h then [] else [Tcsetattr (fd h) TCSADRAIN (tattr w)])"
    by simp
qed

theorem query_timeout_returns_empty_witness:
  "to_bytes (Str (ascii (ESC # ''[18t''))) = Inr (ESC # ''[18t'') \<and>
   fst (os_select (fd ctx0) (Some 0.05) tty0) = Returns False \<and>
   fst (query ctx0 tty0 (Str (ascii (ESC # ''[18t''))) (Some 0.05)) = Returns [] \<and>
   trace (snd (snd (query ctx0 tty0 (Str (ascii (ESC # ''[18t''))) (Some 0.05)))) =
     [Tcgetattr 0, Setcbreak 0 TCSADRAIN, Write 0 (ESC # ''[18t''), Select 0 (Some 0.05),
      Tcsetattr 0 TCSADRAIN 7]"
proof -
  have enc: "to_bytes (Str (ascii (ESC # ''[18t''))) = Inr (ESC # ''[18t'')"
    by (simp add: to_bytes_def encode_ascii ESC_def)
  have sel: "fst (os_select (fd ctx0) (Some 0.05) tty0) = Returns False"
    by (simp add: os_select_def next_arrival_def logged_def tty0_def Let_def)
  from query_timeout_returns_empty
         [of "Str (ascii (ESC # ''[18t''))" "ESC # ''[18t''" ctx0 "Some 0.05" tty0] enc sel
  show ?thesis by (simp add: ctx0_def tty0_def)
qed

text \<open>
  Claim C4 does not hold of the code. \<open>query\<close> calls \<open>os.write\<close> once, whatever the
  timeout and whatever the device accepts: the bytes that reach the device are the
  part of the request that this one call took, and no second write follows. (The method
  \<open>write\<close> has the loop: see \<open>write_bytes_wire\<close>.)
\<close>

theorem query_writes_once:
  "to_bytes s = Inr data \<longrightarrow>
     writes (trace (snd (snd (query h w s timeout)))) = writes (trace w) @ [data] \<and>
     wire (snd (snd (query h w s timeout))) = wire w @ take (accepted w data) data"
  using query_write_effect by blast

text \<open>
  A device that takes two bytes on the first write: of the five bytes of \<open>ESC [ 18 t\<close>
  only \<open>ESC [\<close> is sent by \<open>query\<close>, in one write; \<open>write\<close> sends all five.
\<close>

theorem query_writes_once_witness:
  "wire (snd (snd (query ctx0 (tty0\<lparr>wcaps := [2]\<rparr>) (Bytes (ESC # ''[18t'')) (Some 0.05)))) =
     [ESC, CHR ''[''] \<and>
   writes (trace (snd (snd (query ctx0 (tty0\<lparr>wcaps := [2]\<rparr>) (Bytes (ESC # ''[18t''))
     (Some 0.05))))) = [ESC # ''[18t''] \<and>
   wire (snd (snd (write_bytes ctx0 (tty0\<lparr>wcaps := [2]\<rparr>) (Bytes (ESC # ''[18t''))))) =
     ESC # ''[18t''"
  using
    query_writes_once [of "Bytes (ESC # ''[18t'')" "ESC # ''[18t''" ctx0 "tty0\<lparr>wcaps := [2]\<rparr>"
      "Some 0.05"]
    write_bytes_wire [of "Bytes (ESC # ''[18t'')" "ESC # ''[18t''" "tty0\<lparr>wcaps := [2]\<rparr>" ctx0]
  by (simp add: to_bytes_def accepted_def tty0_def)

text \<open>
  Claim C10. A bytes payload \<open>d\<close> is sent as it is: it is the data of the one write of
  \<open>query\<close> and of the first write of \<open>write\<close>. A text payload is sent as its UTF-8
  encoding: if \<open>b\<close> is the encoding of the text \<open>t\<close>, then \<open>query\<close> of \<open>t\<close> is \<open>query\<close> of \<open>b\<close> and
  \<open>write\<close> of \<open>t\<close> is \<open>write\<close> of \<open>b\<close> (same outcome, same handle, same world, so the same
  OS calls); the one write of \<open>query\<close> carries \<open>b\<close>, the first write of \<open>write\<close> carries
  \<open>b\<close>, and on a device that takes at least a byte per call \<open>write\<close> puts exactly \<open>b\<close>
  on the wire. A text with no encoding (a lone surrogate) is not sent at all: both
  methods raise the encoding error before any write.
\<close>

theorem text_payload_sent_as_utf8:
  "writes (trace (snd (snd (query h w (Bytes d) timeout)))) = writes (trace w) @ [d] \<and>
   (\<exists>rest. writes (trace (snd (snd (write_bytes h w (Bytes d))))) = writes (trace w) @ d # rest) \<and>
   (encode_utf8 t = Inr b \<longrightarrow>
     query h w (Str t) timeout = query h w (Bytes b) timeout \<and>
     write_bytes h w (Str t) = write_bytes h w (Bytes b) \<and>
     writes (trace (snd (snd (query h w (Str t) timeout)))) = writes (trace w) @ [b] \<and>
     (\<exists>rest. writes (trace (snd (snd (write_bytes h w (Str t))))) = writes (trace w) @ b # rest) \<and>
     (list_all (\<lambda>c. 0 < c) (wcaps w) \<longrightarrow>
        wire (snd (snd (write_bytes h w (Str t)))) = wire w @ b)) \<and>
   (encode_utf8 t = Inl e \<longrightarrow>
     fst (query h w (Str t) timeout) = Raises e \<and>
     writes (trace (snd (snd (query h w (Str t) timeout)))) = writes (trace w) \<and>
     write_bytes h w (Str t) = (Raises e, h, w))"
proof (intro impI conjI)
  show "writes (trace (snd (snd (query h w (Bytes d) timeout)))) = writes (trace w) @ [d]"
  proof -
    have "to_bytes (Bytes d) = Inr d"
      by (simp add: to_bytes_def)
    from query_write_effect [OF this] show ?thesis
      by blast
  qed
  show "\<exists>rest. writes (trace (snd (snd (write_bytes h w (Bytes d))))) = writes (trace w) @ d # rest"
  proof -
    obtain cs where
      "trace (write_rest (fd h) d (accepted w d) (snd (os_write (fd h) d w))) =
         trace (snd (os_write (fd h) d w)) @ cs"
      using write_rest_trace by blast
    then show ?thesis
      by (simp add: write_bytes_def to_bytes_def split_beta os_write_sent os_write_world)
  qed
next
  assume enc: "encode_utf8 t = Inr b"
  then have tb: "to_bytes (Str t) = Inr b"
    by (simp add: to_bytes_def)
  show "query h w (Str t) timeout = query h w (Bytes b) timeout"
    using enc by (simp add: query_def to_bytes_def)
  show "write_bytes h w (Str t) = write_bytes h w (Bytes b)"
    using enc by (simp add: write_bytes_def to_bytes_def)
  show "writes (trace (snd (snd (query h w (Str t) timeout)))) = writes (trace w) @ [b]"
    using query_write_effect [OF tb] by blast
  show "\<exists>rest. writes (trace (snd (snd (write_bytes h w (Str t))))) = writes (trace w) @ b # rest"
  proof -
    obtain cs where
      "trace (write_rest (fd h) b (accepted w b) (snd (os_write (fd h) b w))) =
         trace (snd (os_write (fd h) b w)) @ cs"
      using write_rest_trace by blast
    then show ?thesis
      using tb by (simp add: write_bytes_def split_beta os_write_sent os_write_world)
  qed
  show "wire (snd (snd (write_bytes h w (Str t)))) = wire w @ b"
    if "list_all (\<lambda>c. 0 < c) (wcaps w)"
    using tb that by (rule write_bytes_wire)
next
  assume "encode_utf8 t = Inl e"
  then have te: "to_bytes (Str t) = Inl e"
    by (simp add: to_bytes_def)
  show "fst (query h w (Str t) timeout) = Raises e"
    using te by (rule query_unencodable)
  show "writes (trace (snd (snd (query h w (Str t) timeout)))) = writes (trace w)"
    using te by (rule query_unencodable)
  show "write_bytes h w (Str t) = (Raises e, h, w)"
    using te by (rule write_unencodable)
qed

text \<open>The text \<open>H\<close>, e acute: three bytes, in one write of \<open>query\<close>.\<close>

theorem text_payload_sent_as_utf8_witness:
  "encode_utf8 [0x48, 0xE9] = Inr [CHR 0x48, CHR 0xC3, CHR 0xA9] \<and>
   query ctx0 tty0 (Str [0x48, 0xE9]) (Some 0.05) =
     query ctx0 tty0 (Bytes [CHR 0x48, CHR 0xC3, CHR 0xA9]) (Some 0.05) \<and>
   writes (trace (snd (snd (query ctx0 tty0 (Str [0x48, 0xE9]) (Some 0.05))))) =
     [[CHR 0x48, CHR 0xC3, CHR 0xA9]] \<and>
   wire (snd (snd (write_bytes ctx0 tty0 (Str [0x48, 0xE9])))) = [CHR 0x48, CHR 0xC3, CHR 0xA9]"
proof -
  have enc: "encode_utf8 [0x48, 0xE9] = Inr [CHR 0x48, CHR 0xC3, CHR 0xA9]"
    by (simp add: encode_utf8_def utf8_char_def char_of_def bit_iff_odd)
  note c = text_payload_sent_as_utf8 [of ctx0 tty0 "[]" "Some 0.05" "[0x48, 0xE9]"
      "[CHR 0x48, CHR 0xC3, CHR 0xA9]", THEN conjunct2, THEN conjunct2, THEN conjunct1, THEN mp,
      OF enc]
  show ?thesis
  proof (intro conjI)
    show "encode_utf8 [0x48, 0xE9] = Inr [CHR 0x48, CHR 0xC3, CHR 0xA9]"
      by (rule enc)
    show "query ctx0 tty0 (Str [0x48, 0xE9]) (Some 0.05) =
        query ctx0 tty0 (Bytes [CHR 0x48, CHR 0xC3, CHR 0xA9]) (Some 0.05)"
      by (rule c [THEN conjunct1])
    from c have "writes (trace (snd (snd (query ctx0 tty0 (Str [0x48, 0xE9]) (Some 0.05))))) =
        writes (trace tty0) @ [[CHR 0x48, CHR 0xC3, CHR 0xA9]]"
      by blast
    then show "writes (trace (snd (snd (query ctx0 tty0 (Str [0x48, 0xE9]) (Some 0.05))))) =
        [[CHR 0x48, CHR 0xC3, CHR 0xA9]]"
      by (simp add: tty0_def)
    from c have "list_all (\<lambda>c. 0 < c) (wcaps tty0) \<longrightarrow>
        wire (snd (snd (write_bytes ctx0 tty0 (Str [0x48, 0xE9])))) =
          wire tty0 @ [CHR 0x48, CHR 0xC3, CHR 0xA9]"
      by blast
    then show "wire (snd (snd (write_bytes ctx0 tty0 (Str [0x48, 0xE9])))) =
        [CHR 0x48, CHR 0xC3, CHR 0xA9]"
      by (simp add: tty0_def)
  qed
qed

section \<open>\<open>get_size\<close>\<close>

lemma py_int_nonneg:
  assumes "CHR ''-'' \<notin> set v" and "py_int base v = Inr n"
  shows "0 \<le> n"
proof -
  have "CHR ''-'' \<notin> set (dropWhile is_space v)"
    using assms(1) by (auto dest: set_dropWhileD)
  then have "fst (skip_sign (dropWhile is_space v)) = 1"
    by (auto simp: skip_sign_def split: list.splits)
  with assms(2) show ?thesis
    by (auto simp: py_int_def Let_def split_beta split: if_splits option.splits)
qed

lemma bytes_split_subset_all: "\<forall>p \<in> set (bytes_split sep s). set p \<subseteq> set s"
  by (induction s) (auto split: list.splits)

lemma bytes_split_subset: "p \<in> set (bytes_split sep s) \<Longrightarrow> set p \<subseteq> set s"
  using bytes_split_subset_all by blast

lemma list_comp_Inr:
  "list_comp f xs = Inr ys \<Longrightarrow> list_all2 (\<lambda>x y. f x = Inr y) xs ys"
  by (induction xs arbitrary: ys) (auto split: sum.splits)

lemma parse_pair_nonneg:
  assumes "CHR ''-'' \<notin> set report" and "parse_pair pre report = Some (a, b)"
  shows "0 \<le> a \<and> 0 \<le> b"
proof -
  let ?fields = "bytes_split (CHR '';'') (drop 4 (butlast report))"
  from assms(2) have "list_comp (py_int 10) ?fields = Inr [a, b]"
    by (auto simp: parse_pair_def split: if_splits sum.splits list.splits)
  then have "list_all2 (\<lambda>x y. py_int 10 x = Inr y) ?fields [a, b]"
    by (rule list_comp_Inr)
  then obtain x1 x2 where f: "?fields = [x1, x2]" and a: "py_int 10 x1 = Inr a"
      and b: "py_int 10 x2 = Inr b"
    by (auto simp: list_all2_Cons2)
  have "set x1 \<subseteq> set report" "set x2 \<subseteq> set report"
    using bytes_split_subset [of x1 "CHR '';''" "drop 4 (butlast report)"]
      bytes_split_subset [of x2 "CHR '';''" "drop 4 (butlast report)"] f
    by (auto dest: in_set_dropD in_set_butlastD)
  with assms(1) have "CHR ''-'' \<notin> set x1" "CHR ''-'' \<notin> set x2"
    by auto
  with a b show ?thesis
    by (auto dest: py_int_nonneg)
qed

lemma fallback_pair_nonneg:
  assumes "CHR ''-'' \<notin> set report" and "0 \<le> a0" and "0 \<le> b0"
    and "(case parse_pair pre report of Some (a, b) \<Rightarrow> (a, b) | None \<Rightarrow> (a0, b0)) = (a', b')"
  shows "0 \<le> a' \<and> 0 \<le> b'"
proof (cases "parse_pair pre report")
  case None
  with assms show ?thesis by simp
next
  case (Some p)
  obtain a b where "p = (a, b)" by (cases p)
  with Some assms(4) have "parse_pair pre report = Some (a', b')" by simp
  with assms(1) show ?thesis by (rule parse_pair_nonneg)
qed

lemma minus_free_logged [simp]: "minus_free (logged c w) = minus_free w"
  by (simp add: minus_free_def logged_def)

lemma minus_free_readable: "minus_free w \<Longrightarrow> CHR ''-'' \<notin> set (readable w)"
  by (cases "arrivals w") (auto simp: minus_free_def readable_def)

lemma minus_free_after_query: "minus_free w \<Longrightarrow> minus_free (after_query h d t w)"
proof -
  assume m: "minus_free w"
  then have "CHR ''-'' \<notin> set (drop 1024 (readable w))"
    by (auto dest: minus_free_readable in_set_dropD)
  moreover have "CHR ''-'' \<notin> set (concat (tl (arrivals w)))"
    using m by (cases "arrivals w") (auto simp: minus_free_def)
  moreover have "CHR ''-'' \<notin> set (concat (arrivals w))"
    using m by (simp add: minus_free_def)
  ultimately show ?thesis
    by (simp add: minus_free_def)
qed

lemma parse_text_example: "parse_pair (ESC # ''[8;'') (ESC # ''[8;40;120t'') = Some (40, 120)"
  by (simp add: parse_pair_def startswith_def endswith_def py_int_def skip_sign_def
      skip_radix_prefix_def is_space_def digit_value_def ESC_def)

lemma parse_pixel_example: "parse_pair (ESC # ''[4;'') (ESC # ''[4;800;1600t'') = Some (800, 1600)"
  by (simp add: parse_pair_def startswith_def endswith_def py_int_def skip_sign_def
      skip_radix_prefix_def is_space_def digit_value_def ESC_def)

text \<open>
  \<open>get_size\<close> always returns. Each fallback is a \<open>query\<close> with the default timeout; the
  report of the first is read in the world after the ioctl, the report of the second in
  the world the first one left.
\<close>

lemma get_size_run:
  "get_size h w =
    (let (rows, cols, xpixel, ypixel) =
           (case winsize w of
              None \<Rightarrow> (0, 0, 0, 0)
            | Some (r, c, x, y) \<Rightarrow> (uint r, uint c, uint x, uint y));
         w1 = logged (Ioctl_TIOCGWINSZ (fd h)) w;
         w2 = (if rows = 0 \<or> cols = 0 then after_query h (ESC # ''[18t'') (Some 0.05) w1 else w1);
         (rows', cols') =
           (if rows = 0 \<or> cols = 0 then
              (case parse_pair (ESC # ''[8;'') (take 1024 (readable w1)) of
                 Some (r, c) \<Rightarrow> (r, c)
               | None \<Rightarrow> (rows, cols))
            else (rows, cols));
         w3 = (if xpixel = 0 \<or> ypixel = 0 then after_query h (ESC # ''[14t'') (Some 0.05) w2 else w2);
         (xpixel', ypixel') =
           (if xpixel = 0 \<or> ypixel = 0 then
              (case parse_pair (ESC # ''[4;'') (take 1024 (readable w2)) of
                 Some (y, x) \<Rightarrow> (x, y)
               | None \<Rightarrow> (xpixel, ypixel))
            else (xpixel, ypixel))
     in (Returns (cols', rows', xpixel', ypixel'), h, w3))"
proof -
  obtain rows cols xpixel ypixel where ws:
    "(case winsize w of
        None \<Rightarrow> (0, 0, 0, 0)
      | Some (r, c, x, y) \<Rightarrow> (uint r, uint c, uint x, uint y)) = (rows, cols, xpixel, ypixel)"
    by (metis prod_cases4)
  show ?thesis
    unfolding get_size_def ioctl_winsize_def Let_def ws prod.case
    by (simp add: query_text_after then_do_def split_beta)
qed

text \<open>
  Claim C5. The two reference reports parse to rows 40, columns 120 and to height 800,
  width 1600, and \<open>get_size\<close> returns them in the order columns, rows, pixel width,
  pixel height: both together when the ioctl gave neither pair, and each alone, beside
  the values of the ioctl, when the ioctl gave the other pair.
\<close>

theorem get_size_parses_fallback_replies:
  "parse_pair (ESC # ''[8;'') (ESC # ''[8;40;120t'') = Some (40, 120) \<and>
   parse_pair (ESC # ''[4;'') (ESC # ''[4;800;1600t'') = Some (800, 1600) \<and>
   ((case winsize w of None \<Rightarrow> True | Some (r, c, x, y) \<Rightarrow> (r = 0 \<or> c = 0) \<and> (x = 0 \<or> y = 0)) \<and>
    inq w = [] \<and> arrivals w = (ESC # ''[8;40;120t'') # (ESC # ''[4;800;1600t'') # rest \<longrightarrow>
      fst (get_size h w) = Returns (120, 40, 1600, 800)) \<and>
   (winsize w = Some (r, c, x, y) \<and> (r = 0 \<or> c = 0) \<and> x \<noteq> 0 \<and> y \<noteq> 0 \<and>
    inq w = [] \<and> arrivals w = (ESC # ''[8;40;120t'') # rest \<longrightarrow>
      fst (get_size h w) = Returns (120, 40, uint x, uint y)) \<and>
   (winsize w = Some (r, c, x, y) \<and> r \<noteq> 0 \<and> c \<noteq> 0 \<and> (x = 0 \<or> y = 0) \<and>
    inq w = [] \<and> arrivals w = (ESC # ''[4;800;1600t'') # rest \<longrightarrow>
      fst (get_size h w) = Returns (uint c, uint r, 1600, 800))"
proof (intro conjI impI)
  show "parse_pair (ESC # ''[8;'') (ESC # ''[8;40;120t'') = Some (40, 120)"
    by (rule parse_text_example)
  show "parse_pair (ESC # ''[4;'') (ESC # ''[4;800;1600t'') = Some (800, 1600)"
    by (rule parse_pixel_example)
next
  assume a: "(case winsize w of None \<Rightarrow> True | Some (r, c, x, y) \<Rightarrow> (r = 0 \<or> c = 0) \<and> (x = 0 \<or> y = 0)) \<and>
    inq w = [] \<and> arrivals w = (ESC # ''[8;40;120t'') # (ESC # ''[4;800;1600t'') # rest"
  from a have q: "inq w = []"
    and ar: "arrivals w = (ESC # ''[8;40;120t'') # (ESC # ''[4;800;1600t'') # rest"
    by simp_all
  have r1: "readable w = ESC # ''[8;40;120t''"
    by (rule readable_first [OF q ar])
  have r2: "readable (after_query h d t (logged c w)) = ESC # ''[4;800;1600t''" for d t c
    by (rule readable_second [OF q ar]) simp
  show "fst (get_size h w) = Returns (120, 40, 1600, 800)"
  proof (cases "winsize w")
    case None
    then show ?thesis
      by (simp add: get_size_run Let_def r1 r2 parse_text_example parse_pixel_example)
  next
    case (Some v)
    obtain r c x y where "v = (r, c, x, y)" by (metis prod_cases4)
    with Some a have "(uint r = 0 \<or> uint c = 0) \<and> (uint x = 0 \<or> uint y = 0)"
      by (simp add: uint_0_iff)
    with Some \<open>v = (r, c, x, y)\<close> show ?thesis
      by (simp add: get_size_run Let_def r1 r2 parse_text_example parse_pixel_example)
  qed
next
  assume a: "winsize w = Some (r, c, x, y) \<and> (r = 0 \<or> c = 0) \<and> x \<noteq> 0 \<and> y \<noteq> 0 \<and>
    inq w = [] \<and> arrivals w = (ESC # ''[8;40;120t'') # rest"
  from a have q: "inq w = []" and ar: "arrivals w = (ESC # ''[8;40;120t'') # rest"
    by simp_all
  have r1: "readable w = ESC # ''[8;40;120t''"
    by (rule readable_first [OF q ar])
  from a have "(uint r = 0 \<or> uint c = 0) \<and> uint x \<noteq> 0 \<and> uint y \<noteq> 0"
    by (simp add: uint_0_iff)
  with a show "fst (get_size h w) = Returns (120, 40, uint x, uint y)"
    by (simp add: get_size_run Let_def r1 parse_text_example)
next
  assume a: "winsize w = Some (r, c, x, y) \<and> r \<noteq> 0 \<and> c \<noteq> 0 \<and> (x = 0 \<or> y = 0) \<and>
    inq w = [] \<and> arrivals w = (ESC # ''[4;800;1600t'') # rest"
  from a have q: "inq w = []" and ar: "arrivals w = (ESC # ''[4;800;1600t'') # rest"
    by simp_all
  have r1: "readable w = ESC # ''[4;800;1600t''"
    by (rule readable_first [OF q ar])
  from a have "uint r \<noteq> 0 \<and> uint c \<noteq> 0 \<and> (uint x = 0 \<or> uint y = 0)"
    by (simp add: uint_0_iff)
  with a show "fst (get_size h w) = Returns (uint c, uint r, 1600, 800)"
    by (simp add: get_size_run Let_def r1 parse_pixel_example)
qed

text \<open>The sample terminal, whose ioctl fails, answering both queries.\<close>

theorem get_size_parses_fallback_replies_witness:
  "fst (get_size ctx0 (tty0\<lparr>arrivals := [ESC # ''[8;40;120t'', ESC # ''[4;800;1600t'']\<rparr>)) =
     Returns (120, 40, 1600, 800)"
  using get_size_parses_fallback_replies
    [of "tty0\<lparr>arrivals := [ESC # ''[8;40;120t'', ESC # ''[4;800;1600t'']\<rparr>" "[]" ctx0]
  by (simp add: tty0_def)

text \<open>
  Claim C6. When the ioctl gives rows and columns that are not zero, the columns and
  rows returned are those of the ioctl and no \<open>CSI 18 t\<close> is written; the only write is
  \<open>CSI 14 t\<close>, and it is made exactly if the ioctl gave zero for a pixel dimension. In
  general the writes of \<open>get_size\<close> are \<open>CSI 18 t\<close> if rows or columns are missing,
  followed by \<open>CSI 14 t\<close> if a pixel dimension is missing, each whether or not the other
  one is made.
\<close>

theorem fallbacks_fire_when_needed:
  "(winsize w = Some (r, c, x, y) \<and> r \<noteq> 0 \<and> c \<noteq> 0 \<longrightarrow>
      (\<exists>xp yp h' w'. get_size h w = (Returns (uint c, uint r, xp, yp), h', w') \<and>
         writes (trace w') =
           writes (trace w) @ (if x = 0 \<or> y = 0 then [ESC # ''[14t''] else []))) \<and>
   writes (trace (snd (snd (get_size h w)))) =
     writes (trace w)
     @ (if (case winsize w of None \<Rightarrow> True | Some (r, c, x, y) \<Rightarrow> r = 0 \<or> c = 0)
        then [ESC # ''[18t''] else [])
     @ (if (case winsize w of None \<Rightarrow> True | Some (r, c, x, y) \<Rightarrow> x = 0 \<or> y = 0)
        then [ESC # ''[14t''] else [])"
proof (intro conjI impI)
  assume a: "winsize w = Some (r, c, x, y) \<and> r \<noteq> 0 \<and> c \<noteq> 0"
  then show "\<exists>xp yp h' w'. get_size h w = (Returns (uint c, uint r, xp, yp), h', w') \<and>
         writes (trace w') =
           writes (trace w) @ (if x = 0 \<or> y = 0 then [ESC # ''[14t''] else [])"
    by (simp add: get_size_run Let_def split_beta uint_0_iff)
next
  show "writes (trace (snd (snd (get_size h w)))) =
     writes (trace w)
     @ (if (case winsize w of None \<Rightarrow> True | Some (r, c, x, y) \<Rightarrow> r = 0 \<or> c = 0)
        then [ESC # ''[18t''] else [])
     @ (if (case winsize w of None \<Rightarrow> True | Some (r, c, x, y) \<Rightarrow> x = 0 \<or> y = 0)
        then [ESC # ''[14t''] else [])"
  proof (cases "winsize w")
    case None
    then show ?thesis by (simp add: get_size_run Let_def split_beta)
  next
    case (Some a)
    obtain r c x y where "a = (r, c, x, y)" by (metis prod_cases4)
    with Some show ?thesis by (simp add: get_size_run Let_def split_beta uint_0_iff)
  qed
qed

text \<open>
  An ioctl that knows 24 rows and 80 columns but no pixel size: one write, \<open>CSI 14 t\<close>,
  and 80 columns, 24 rows in the result.
\<close>

theorem fallbacks_fire_when_needed_witness:
  "writes (trace (snd (snd (get_size ctx0
      (tty0\<lparr>winsize := Some (24, 80, 0, 0), arrivals := [ESC # ''[4;800;1600t'']\<rparr>))))) =
     [ESC # ''[14t''] \<and>
   (\<exists>xp yp. fst (get_size ctx0
      (tty0\<lparr>winsize := Some (24, 80, 0, 0), arrivals := [ESC # ''[4;800;1600t'']\<rparr>)) =
     Returns (80, 24, xp, yp))"
  using fallbacks_fire_when_needed
    [of "tty0\<lparr>winsize := Some (24, 80, 0, 0), arrivals := [ESC # ''[4;800;1600t'']\<rparr>"
      24 80 0 0 ctx0]
  by (auto simp: tty0_def)

text \<open>
  Claim C9 does not hold as it stands: the fields of a report go through \<open>int\<close>, which
  reads a minus sign. On the sample terminal the report \<open>ESC [ 8 ; -5 ; -7 t\<close> gives
  -7 columns and -5 rows.
\<close>

theorem get_size_negative_counterexample:
  "fst (get_size ctx0 (tty0\<lparr>arrivals := [ESC # ''[8;-5;-7t'']\<rparr>)) = Returns (- 7, - 5, 0, 0)"
proof -
  have p: "parse_pair (ESC # ''[8;'') (ESC # ''[8;-5;-7t'') = Some (- 5, - 7)"
    by (simp add: parse_pair_def startswith_def endswith_def py_int_def skip_sign_def
        skip_radix_prefix_def is_space_def digit_value_def ESC_def)
  have p': "parse_pair (ESC # ''[4;'') [] = None"
    by (simp add: parse_pair_def startswith_def)
  show ?thesis
    by (simp add: get_size_run Let_def tty0_def readable_def after_query_def logged_def p p')
qed

text \<open>
  Claim C9, amended. Whatever the terminal sends, \<open>get_size\<close> returns four integers:
  it neither raises nor blocks. If no minus sign is in what the terminal sends, all
  four are at least zero. Zero is what stays when nothing could be found out: with a
  failing ioctl and a silent terminal all four are zero.
\<close>

theorem get_size_values:
  "(\<exists>c r x y. fst (get_size h w) = Returns (c, r, x, y) \<and>
      (minus_free w \<longrightarrow> 0 \<le> c \<and> 0 \<le> r \<and> 0 \<le> x \<and> 0 \<le> y)) \<and>
   (winsize w = None \<and> inq w = [] \<and> arrivals w = [] \<longrightarrow>
      fst (get_size h w) = Returns (0, 0, 0, 0))"
proof (rule conjI)
  show "winsize w = None \<and> inq w = [] \<and> arrivals w = [] \<longrightarrow>
      fst (get_size h w) = Returns (0, 0, 0, 0)"
  proof
    assume a: "winsize w = None \<and> inq w = [] \<and> arrivals w = []"
    then have r1: "readable w = []"
      by (simp add: readable_def)
    from a have r2: "readable (after_query h d t (logged c w)) = []" for d t c
      by (simp add: readable_def)
    have none: "parse_pair pre [] = None" if "pre \<noteq> []" for pre
      using that by (simp add: parse_pair_def startswith_def)
    from a show "fst (get_size h w) = Returns (0, 0, 0, 0)"
      by (simp add: get_size_run Let_def r1 r2 none)
  qed
next
  show "\<exists>c r x y. fst (get_size h w) = Returns (c, r, x, y) \<and>
      (minus_free w \<longrightarrow> 0 \<le> c \<and> 0 \<le> r \<and> 0 \<le> x \<and> 0 \<le> y)"
  proof -
  obtain rows cols xp yp where ws:
    "(case winsize w of
        None \<Rightarrow> (0, 0, 0, 0)
      | Some (r, c, x, y) \<Rightarrow> (uint r, uint c, uint x, uint y)) = (rows, cols, xp, yp)"
    by (metis prod_cases4)
  have nn: "0 \<le> rows \<and> 0 \<le> cols \<and> 0 \<le> xp \<and> 0 \<le> yp"
    using ws by (auto split: option.splits)
  define w1 where "w1 = logged (Ioctl_TIOCGWINSZ (fd h)) w"
  define w2 where
    "w2 = (if rows = 0 \<or> cols = 0 then after_query h (ESC # ''[18t'') (Some 0.05) w1 else w1)"
  obtain rows' cols' where p1:
    "(if rows = 0 \<or> cols = 0 then
        (case parse_pair (ESC # ''[8;'') (take 1024 (readable w1)) of
           Some (r, c) \<Rightarrow> (r, c)
         | None \<Rightarrow> (rows, cols))
      else (rows, cols)) = (rows', cols')"
    by (metis surj_pair)
  obtain y' x' where p2:
    "(if xp = 0 \<or> yp = 0 then
        (case parse_pair (ESC # ''[4;'') (take 1024 (readable w2)) of
           Some (y, x) \<Rightarrow> (y, x)
         | None \<Rightarrow> (yp, xp))
      else (yp, xp)) = (y', x')"
    by (metis surj_pair)
  have p2': "(if xp = 0 \<or> yp = 0 then
        (case parse_pair (ESC # ''[4;'') (take 1024 (readable w2)) of
           Some (y, x) \<Rightarrow> (x, y)
         | None \<Rightarrow> (xp, yp))
      else (xp, yp)) = (x', y')"
    using p2 by (auto split: if_splits option.splits)
  have res: "fst (get_size h w) = Returns (cols', rows', x', y')"
    unfolding get_size_run Let_def ws prod.case
    unfolding w1_def [symmetric]
    unfolding w2_def [symmetric]
    unfolding p1 p2' prod.case
    by simp
  have "0 \<le> cols' \<and> 0 \<le> rows' \<and> 0 \<le> x' \<and> 0 \<le> y'" if m: "minus_free w"
  proof -
    from m have m1: "minus_free w1" by (simp add: w1_def)
    then have m2: "minus_free w2" by (simp add: w2_def minus_free_after_query)
    have r1: "CHR ''-'' \<notin> set (take 1024 (readable w1))"
      using m1 by (auto dest: minus_free_readable in_set_takeD)
    have r2: "CHR ''-'' \<notin> set (take 1024 (readable w2))"
      using m2 by (auto dest: minus_free_readable in_set_takeD)
    have a: "0 \<le> rows' \<and> 0 \<le> cols'"
    proof (cases "rows = 0 \<or> cols = 0")
      case True
      with p1 fallback_pair_nonneg [OF r1, of rows cols "ESC # ''[8;''" rows' cols'] nn
      show ?thesis by simp
    next
      case False
      with p1 nn show ?thesis by auto
    qed
    have b: "0 \<le> y' \<and> 0 \<le> x'"
    proof (cases "xp = 0 \<or> yp = 0")
      case True
      with p2 fallback_pair_nonneg [OF r2, of yp xp "ESC # ''[4;''" y' x'] nn
      show ?thesis by simp
    next
      case False
      with p2 nn show ?thesis by auto
    qed
    from a b show ?thesis by simp
  qed
  with res show ?thesis by blast
  qed
qed

text \<open>The sample terminal answering both queries without a minus sign.\<close>

theorem get_size_values_witness:
  "minus_free (tty0\<lparr>arrivals := [ESC # ''[8;40;120t'', ESC # ''[4;800;1600t'']\<rparr>) \<and>
   (\<exists>c r x y.
      fst (get_size ctx0 (tty0\<lparr>arrivals := [ESC # ''[8;40;120t'', ESC # ''[4;800;1600t'']\<rparr>)) =
        Returns (c, r, x, y) \<and> 0 \<le> c \<and> 0 \<le> r \<and> 0 \<le> x \<and> 0 \<le> y)"
proof -
  have m: "minus_free (tty0\<lparr>arrivals := [ESC # ''[8;40;120t'', ESC # ''[4;800;1600t'']\<rparr>)"
    by (simp add: minus_free_def tty0_def ESC_def)
  with get_size_values
    [of ctx0 "tty0\<lparr>arrivals := [ESC # ''[8;40;120t'', ESC # ''[4;800;1600t'']\<rparr>"]
  show ?thesis by blast
qed

section \<open>\<open>query_color\<close>\<close>

lemma ascii_append [simp]: "ascii a @ ascii b = ascii (a @ b)"
  by (simp add: ascii_def)

lemma is_hex_not_special:
  assumes "is_hex c"
  shows "\<not> is_space c" and "c \<noteq> CHR ''+''" and "c \<noteq> CHR ''-''" and "c \<noteq> CHR ''_''"
    and "c \<noteq> CHR ''x''" and "c \<noteq> CHR ''X''" and "c \<noteq> CHR ''/''"
    and "c \<noteq> ESC" and "c \<noteq> BSL" and "c \<noteq> BEL"
  using assms
  by (auto simp: is_hex_def digit_value_def is_space_def ESC_def BSL_def BEL_def)

lemma hex_char_code:
  assumes "d < 16"
  shows "of_char (hex_char d) \<noteq> (43::nat)" and "of_char (hex_char d) \<noteq> (45::nat)"
proof -
  from assms have "d = 0 \<or> d = 1 \<or> d = 2 \<or> d = 3 \<or> d = 4 \<or> d = 5 \<or> d = 6 \<or> d = 7 \<or>
      d = 8 \<or> d = 9 \<or> d = 10 \<or> d = 11 \<or> d = 12 \<or> d = 13 \<or> d = 14 \<or> d = 15"
    by arith
  then show "of_char (hex_char d) \<noteq> (43::nat)" and "of_char (hex_char d) \<noteq> (45::nat)"
    by (auto simp: hex_char_def)
qed

lemma py_hex_nat: "py_hex (int k) = ascii (''0x'' @ hex_digits k)"
  by (simp add: py_hex_def)

lemma hex_digits_byte:
  assumes "d1 < 16" and "d2 < 16"
  shows "zfill 2 (drop 2 (py_hex (int (d1 * 16 + d2)))) = ascii [hex_char d1, hex_char d2]"
proof (cases "d1 = 0")
  case True
  have "hex_digits d2 = [hex_char d2]"
    using assms(2) by (simp add: hex_digits.simps)
  moreover have "hex_char 0 = CHR ''0''"
    by (simp add: hex_char_def)
  ultimately show ?thesis
    unfolding py_hex_nat
    using True hex_char_code [OF assms(2)]
    by (simp add: zfill_def ascii_def)
next
  case False
  then have "\<not> d1 * 16 + d2 < 16" by simp
  moreover have "(d1 * 16 + d2) div 16 = d1" "(d1 * 16 + d2) mod 16 = d2"
    using assms(2) by simp_all
  ultimately have "hex_digits (d1 * 16 + d2) = [hex_char d1, hex_char d2]"
    using assms(1) by (simp add: hex_digits.simps [of "d1 * 16 + d2"] hex_digits.simps [of d1])
  then show ?thesis
    unfolding py_hex_nat
    by (simp add: zfill_def ascii_def)
qed

lemma py_int_hex4:
  assumes "is_hex c1" and "is_hex c2" and "is_hex c3" and "is_hex c4"
  shows "py_int 16 [c1, c2, c3, c4] =
    Inr (int (((digit_value c1 * 16 + digit_value c2) * 16 + digit_value c3) * 16 + digit_value c4))"
  using assms is_hex_not_special [OF assms(1)] is_hex_not_special [OF assms(2)]
    is_hex_not_special [OF assms(3)] is_hex_not_special [OF assms(4)]
  by (simp add: py_int_def skip_sign_def skip_radix_prefix_def startswith_def is_hex_def)

lemma hex4_cases:
  assumes "hex4 v"
  obtains c1 c2 c3 c4 where "v = [c1, c2, c3, c4]"
    and "is_hex c1" and "is_hex c2" and "is_hex c3" and "is_hex c4"
proof -
  from assms have "length v = Suc (Suc (Suc (Suc 0)))" and "list_all is_hex v"
    by (simp_all add: hex4_def)
  then show ?thesis
    using that by (auto simp: length_Suc_conv)
qed

text \<open>
  A channel of four hexadecimal digits is a 16-bit value; its high byte, the value
  shifted right by 8, comes out as the first two digits in lower case.
\<close>

lemma channel_hex4:
  assumes "hex4 v"
  shows "channel v = Inr (ascii (high_byte v))"
proof -
  from assms obtain c1 c2 c3 c4 where v: "v = [c1, c2, c3, c4]"
    and h: "is_hex c1" "is_hex c2" "is_hex c3" "is_hex c4"
    by (rule hex4_cases)
  let ?d1 = "digit_value c1" and ?d2 = "digit_value c2"
  let ?d3 = "digit_value c3" and ?d4 = "digit_value c4"
  let ?n = "((?d1 * 16 + ?d2) * 16 + ?d3) * 16 + ?d4"
  from h have lt: "?d1 < 16" "?d2 < 16" "?d3 < 16" "?d4 < 16"
    by (simp_all add: is_hex_def)
  then have "?n div 256 = ?d1 * 16 + ?d2"
    by simp
  then have "int ?n div 256 = int (?d1 * 16 + ?d2)"
    by (metis of_nat_numeral zdiv_int)
  then show ?thesis
    using py_int_hex4 [OF h] hex_digits_byte [OF lt(1,2)]
    by (simp add: channel_def v high_byte_def)
qed

lemma channel_hex4_value:
  assumes "hex4 v"
  shows "\<exists>n<65536. py_int 16 v = Inr (int n) \<and>
           channel v = Inr (zfill 2 (drop 2 (py_hex (int n div 256)))) \<and>
           zfill 2 (drop 2 (py_hex (int n div 256))) = ascii (high_byte v)"
proof -
  from assms obtain c1 c2 c3 c4 where v: "v = [c1, c2, c3, c4]"
    and h: "is_hex c1" "is_hex c2" "is_hex c3" "is_hex c4"
    by (rule hex4_cases)
  let ?n = "((digit_value c1 * 16 + digit_value c2) * 16 + digit_value c3) * 16 + digit_value c4"
  from h have "?n < 65536"
    by (simp add: is_hex_def)
  moreover have "py_int 16 v = Inr (int ?n)"
    unfolding v by (rule py_int_hex4 [OF h])
  moreover from this have "channel v = Inr (zfill 2 (drop 2 (py_hex (int ?n div 256))))"
    by (simp add: channel_def)
  ultimately show ?thesis
    using channel_hex4 [OF assms] by (intro exI [of _ ?n]) simp
qed

lemma of_char_BSL [simp]: "of_char BSL = (92::nat)"
  by (simp add: BSL_def)

text \<open>
  The foreground query: one \<open>query\<close> of \<open>ESC ] 10 ; ?\<close> and the string terminator, and the report, the first
  1024 readable bytes, parsed.
\<close>

lemma query_color_fg:
  "query_color h w (ascii ''fg'') =
    ((let report = take 1024 (readable w) in
      if startswith report [ESC, CHR '']''] \<and>
         (endswith report [ESC, BSL] \<or> endswith report [BEL])
      then
        (let spec = rstrip [BEL] (rstrip [ESC, BSL] (drop 5 report))
         in if startswith spec ''rgb:'' then
              (case list_comp channel (bytes_split (CHR ''/'') (drop 4 spec)) of
                 Inl e \<Rightarrow> Raises e
               | Inr [r, g, b] \<Rightarrow> Returns (Some (ascii ''#'' @ r @ g @ b))
               | Inr _ \<Rightarrow> Raises ValueError)
            else Returns None)
      else Returns None),
     h, after_query h (ESC # '']10;?'' @ [ESC, BSL]) (Some 0.05) w)"
  by (simp add: query_color_def query_text_after then_do_def Let_def
      split: sum.splits list.splits)

text \<open>
  A report without the OSC prefix, without a terminator or without the \<open>rgb:\<close> marker
  gives \<open>None\<close>.
\<close>

lemma query_color_fg_none:
  assumes "\<not> startswith (take 1024 (readable w)) [ESC, CHR '']''] \<or>
    \<not> (endswith (take 1024 (readable w)) [ESC, BSL] \<or> endswith (take 1024 (readable w)) [BEL]) \<or>
    \<not> startswith (rstrip [BEL] (rstrip [ESC, BSL] (drop 5 (take 1024 (readable w))))) ''rgb:''"
  shows "fst (query_color h w (ascii ''fg'')) = Returns None"
  using assms by (auto simp: query_color_fg Let_def)

text \<open>
  Claim C8 does not hold of the code. A report with the prefix, a terminator and the
  marker whose channel is not a number makes \<open>int(v, 16)\<close> raise, and nothing in
  \<open>query_color\<close> catches it: the call raises \<open>ValueError\<close> where the claim says \<open>None\<close>.
  So does a read that holds two well-formed reports one after the other (the late
  answer to an earlier query and the answer to this one).
\<close>

theorem query_color_raises_on_bad_channel:
  "(inq w = [] \<and> arrivals w = (ESC # '']10;rgb:zz/00/00'' @ [BEL]) # rest \<longrightarrow>
     fst (query_color h w (ascii ''fg'')) = Raises ValueError) \<and>
   (inq w = [] \<and>
    arrivals w =
      (ESC # '']10;rgb:3232/6464/9696'' @ [BEL] @ ESC # '']10;rgb:3232/6464/9696'' @ [BEL]) # rest \<longrightarrow>
     fst (query_color h w (ascii ''fg'')) = Raises ValueError)"
proof (intro conjI impI)
  assume a: "inq w = [] \<and> arrivals w = (ESC # '']10;rgb:zz/00/00'' @ [BEL]) # rest"
  then have r: "readable w = ESC # '']10;rgb:zz/00/00'' @ [BEL]"
    by (simp add: readable_first)
  have "channel ''zz'' = Inl ValueError"
    by (simp add: channel_def py_int_def skip_sign_def skip_radix_prefix_def startswith_def
        is_space_def digit_value_def)
  then show "fst (query_color h w (ascii ''fg'')) = Raises ValueError"
    by (simp add: query_color_fg r startswith_def endswith_def rstrip_def ESC_def BSL_def BEL_def)
next
  assume a: "inq w = [] \<and>
    arrivals w =
      (ESC # '']10;rgb:3232/6464/9696'' @ [BEL] @ ESC # '']10;rgb:3232/6464/9696'' @ [BEL]) # rest"
  then have r: "readable w =
      ESC # '']10;rgb:3232/6464/9696'' @ [BEL] @ ESC # '']10;rgb:3232/6464/9696'' @ [BEL]"
    by (simp add: readable_first)
  have c: "channel ''3232'' = Inr (ascii ''32'')" "channel ''6464'' = Inr (ascii ''64'')"
    by (simp_all add: channel_hex4 hex4_def is_hex_def high_byte_def digit_value_def hex_char_def)
  have "channel (''9696'' @ [CHR 0x07, CHR 0x1B] @ '']10;rgb:3232'') = Inl ValueError"
    by (simp add: channel_def py_int_def skip_sign_def skip_radix_prefix_def startswith_def
        is_space_def digit_value_def)
  with c show "fst (query_color h w (ascii ''fg'')) = Raises ValueError"
    by (simp add: query_color_fg r startswith_def endswith_def rstrip_def ESC_def BSL_def BEL_def)
qed

text \<open>Both reports on the sample terminal.\<close>

theorem query_color_raises_on_bad_channel_witness:
  "fst (query_color ctx0 (tty0\<lparr>arrivals := [ESC # '']10;rgb:zz/00/00'' @ [BEL]]\<rparr>)
     (ascii ''fg'')) = Raises ValueError \<and>
   fst (query_color ctx0
     (tty0\<lparr>arrivals :=
        [ESC # '']10;rgb:3232/6464/9696'' @ [BEL] @ ESC # '']10;rgb:3232/6464/9696'' @ [BEL]]\<rparr>)
     (ascii ''fg'')) = Raises ValueError"
  using
    query_color_raises_on_bad_channel
      [of "tty0\<lparr>arrivals := [ESC # '']10;rgb:zz/00/00'' @ [BEL]]\<rparr>" "[]" ctx0]
    query_color_raises_on_bad_channel
      [of "tty0\<lparr>arrivals :=
        [ESC # '']10;rgb:3232/6464/9696'' @ [BEL] @ ESC # '']10;rgb:3232/6464/9696'' @ [BEL]]\<rparr>"
        "[]" ctx0]
  by (simp add: tty0_def)

lemma color_report_parses:
  assumes R: "hex4 R" and G: "hex4 G" and B: "hex4 B"
    and t: "term = [ESC, BSL] \<or> term = [BEL]"
  shows
    "(let report = take 1024 (ESC # '']10;rgb:'' @ R @ ''/'' @ G @ ''/'' @ B @ term) in
      if startswith report [ESC, CHR '']''] \<and>
         (endswith report [ESC, BSL] \<or> endswith report [BEL])
      then
        (let spec = rstrip [BEL] (rstrip [ESC, BSL] (drop 5 report))
         in if startswith spec ''rgb:'' then
              (case list_comp channel (bytes_split (CHR ''/'') (drop 4 spec)) of
                 Inl e \<Rightarrow> Raises e
               | Inr [r, g, b] \<Rightarrow> Returns (Some (ascii ''#'' @ r @ g @ b))
               | Inr _ \<Rightarrow> Raises ValueError)
            else Returns None)
      else Returns None) =
     Returns (Some (ascii (''#'' @ high_byte R @ high_byte G @ high_byte B)))"
proof -
  from R obtain r1 r2 r3 r4 where Rv: "R = [r1, r2, r3, r4]"
    and Rh: "is_hex r1" "is_hex r2" "is_hex r3" "is_hex r4"
    by (rule hex4_cases)
  from G obtain g1 g2 g3 g4 where Gv: "G = [g1, g2, g3, g4]"
    and Gh: "is_hex g1" "is_hex g2" "is_hex g3" "is_hex g4"
    by (rule hex4_cases)
  from B obtain b1 b2 b3 b4 where Bv: "B = [b1, b2, b3, b4]"
    and Bh: "is_hex b1" "is_hex b2" "is_hex b3" "is_hex b4"
    by (rule hex4_cases)
  note ch = channel_hex4 [OF R] channel_hex4 [OF G] channel_hex4 [OF B]
  have sep: "r1 \<noteq> CHR ''/''" "r2 \<noteq> CHR ''/''" "r3 \<noteq> CHR ''/''" "r4 \<noteq> CHR ''/''"
    "g1 \<noteq> CHR ''/''" "g2 \<noteq> CHR ''/''" "g3 \<noteq> CHR ''/''" "g4 \<noteq> CHR ''/''"
    "b1 \<noteq> CHR ''/''" "b2 \<noteq> CHR ''/''" "b3 \<noteq> CHR ''/''" "b4 \<noteq> CHR ''/''"
    using Rh Gh Bh by (simp_all add: is_hex_not_special)
  have last: "b4 \<noteq> CHR 0x1B" "b4 \<noteq> CHR 0x5C" "b4 \<noteq> CHR 0x07"
    using is_hex_not_special(8-10) [OF Bh(4)] by (simp_all add: ESC_def BSL_def BEL_def)
  have split3: "bytes_split (CHR ''/'') (R @ ''/'' @ G @ ''/'' @ B) = [R, G, B]"
    using sep by (simp add: Rv Gv Bv)
  have comp: "list_comp channel [R, G, B] =
      Inr [ascii (high_byte R), ascii (high_byte G), ascii (high_byte B)]"
    by (simp add: ch)
  from t show ?thesis
  proof
    assume "term = [ESC, BSL]"
    then have "rstrip [BEL] (rstrip [ESC, BSL] (''rgb:'' @ R @ ''/'' @ G @ ''/'' @ B @ term)) =
        ''rgb:'' @ R @ ''/'' @ G @ ''/'' @ B"
      using last by (simp add: rstrip_def Rv Gv Bv ESC_def BSL_def BEL_def)
    moreover have "length (ESC # '']10;rgb:'' @ R @ ''/'' @ G @ ''/'' @ B @ term) \<le> 1024"
      using \<open>term = [ESC, BSL]\<close> by (simp add: Rv Gv Bv)
    moreover have "endswith (ESC # '']10;rgb:'' @ R @ ''/'' @ G @ ''/'' @ B @ term) [ESC, BSL]"
      using \<open>term = [ESC, BSL]\<close> by (simp add: endswith_def Rv Gv Bv)
    ultimately show ?thesis
      using split3 comp by (simp add: startswith_def)
  next
    assume "term = [BEL]"
    then have "rstrip [BEL] (rstrip [ESC, BSL] (''rgb:'' @ R @ ''/'' @ G @ ''/'' @ B @ term)) =
        ''rgb:'' @ R @ ''/'' @ G @ ''/'' @ B"
      using last by (simp add: rstrip_def Rv Gv Bv ESC_def BSL_def BEL_def)
    moreover have "length (ESC # '']10;rgb:'' @ R @ ''/'' @ G @ ''/'' @ B @ term) \<le> 1024"
      using \<open>term = [BEL]\<close> by (simp add: Rv Gv Bv)
    moreover have "endswith (ESC # '']10;rgb:'' @ R @ ''/'' @ G @ ''/'' @ B @ term) [BEL]"
      using \<open>term = [BEL]\<close> by (simp add: endswith_def Rv Gv Bv)
    ultimately show ?thesis
      using split3 comp by (simp add: startswith_def)
  qed
qed

text \<open>
  Claim C7. A foreground report \<open>ESC ] 10 ; rgb:R/G/B\<close> with three channels of four
  hexadecimal digits, ended by ESC backslash or by \<open>BEL\<close>, gives \<open>#\<close> followed by the high
  byte of each channel as two lower-case hexadecimal digits: the channel is a number
  below 65536, and that number shifted right by 8, through \<open>hex\<close> and \<open>zfill\<close>, is its
  first two digits in lower case. The reference report gives \<open>#326496\<close> with either
  terminator.
\<close>

theorem query_color_high_bytes:
  "hex4 R \<and> hex4 G \<and> hex4 B \<and> (term = [ESC, BSL] \<or> term = [BEL]) \<and>
   inq w = [] \<and> arrivals w = (ESC # '']10;rgb:'' @ R @ ''/'' @ G @ ''/'' @ B @ term) # rest \<longrightarrow>
     fst (query_color h w (ascii ''fg'')) =
       Returns (Some (ascii (''#'' @ high_byte R @ high_byte G @ high_byte B))) \<and>
     (\<exists>n<65536. py_int 16 R = Inr (int n) \<and>
        zfill 2 (drop 2 (py_hex (int n div 256))) = ascii (high_byte R)) \<and>
     (\<exists>n<65536. py_int 16 G = Inr (int n) \<and>
        zfill 2 (drop 2 (py_hex (int n div 256))) = ascii (high_byte G)) \<and>
     (\<exists>n<65536. py_int 16 B = Inr (int n) \<and>
        zfill 2 (drop 2 (py_hex (int n div 256))) = ascii (high_byte B))"
proof (intro impI conjI)
  assume a: "hex4 R \<and> hex4 G \<and> hex4 B \<and> (term = [ESC, BSL] \<or> term = [BEL]) \<and>
   inq w = [] \<and> arrivals w = (ESC # '']10;rgb:'' @ R @ ''/'' @ G @ ''/'' @ B @ term) # rest"
  then have r: "readable w = ESC # '']10;rgb:'' @ R @ ''/'' @ G @ ''/'' @ B @ term"
    by (simp add: readable_first)
  from a have "hex4 R" "hex4 G" "hex4 B" "term = [ESC, BSL] \<or> term = [BEL]"
    by simp_all
  note p = color_report_parses [OF this]
  show "fst (query_color h w (ascii ''fg'')) =
       Returns (Some (ascii (''#'' @ high_byte R @ high_byte G @ high_byte B)))"
    unfolding query_color_fg r fst_conv by (rule p)
  from channel_hex4_value [OF \<open>hex4 R\<close>]
  show "\<exists>n<65536. py_int 16 R = Inr (int n) \<and>
        zfill 2 (drop 2 (py_hex (int n div 256))) = ascii (high_byte R)"
    by blast
  from channel_hex4_value [OF \<open>hex4 G\<close>]
  show "\<exists>n<65536. py_int 16 G = Inr (int n) \<and>
        zfill 2 (drop 2 (py_hex (int n div 256))) = ascii (high_byte G)"
    by blast
  from channel_hex4_value [OF \<open>hex4 B\<close>]
  show "\<exists>n<65536. py_int 16 B = Inr (int n) \<and>
        zfill 2 (drop 2 (py_hex (int n div 256))) = ascii (high_byte B)"
    by blast
qed

text \<open>The reference report of the claim, ended by ESC backslash and ended by \<open>BEL\<close>.\<close>

theorem query_color_high_bytes_witness:
  "fst (query_color ctx0
     (tty0\<lparr>arrivals := [ESC # '']10;rgb:3232/6464/9696'' @ [ESC, BSL]]\<rparr>) (ascii ''fg'')) =
     Returns (Some (ascii ''#326496'')) \<and>
   fst (query_color ctx0
     (tty0\<lparr>arrivals := [ESC # '']10;rgb:3232/6464/9696'' @ [BEL]]\<rparr>) (ascii ''fg'')) =
     Returns (Some (ascii ''#326496''))"
proof -
  have h: "hex4 ''3232''" "hex4 ''6464''" "hex4 ''9696''"
    by (simp_all add: hex4_def is_hex_def digit_value_def)
  have hb: "''#'' @ high_byte ''3232'' @ high_byte ''6464'' @ high_byte ''9696'' = ''#326496''"
    by (simp add: high_byte_def digit_value_def hex_char_def)
  from query_color_high_bytes [of "''3232''" "''6464''" "''9696''" "[ESC, BSL]"
      "tty0\<lparr>arrivals := [ESC # '']10;rgb:3232/6464/9696'' @ [ESC, BSL]]\<rparr>" "[]" ctx0]
    query_color_high_bytes [of "''3232''" "''6464''" "''9696''" "[BEL]"
      "tty0\<lparr>arrivals := [ESC # '']10;rgb:3232/6464/9696'' @ [BEL]]\<rparr>" "[]" ctx0]
    h
  show ?thesis
    unfolding hb by (simp add: tty0_def)
qed

end
